theory Spec2Isabelle
  imports Complex_Main
begin

section \<open>Strings\<close>

text \<open>
  Python strings are modelled as \<^typ>\<open>string\<close> (a list of 8-bit characters, the UTF-8
  bytes of the text).  Only the ASCII white space of \<^verbatim>\<open>str.strip()\<close> is modelled: the six
  characters \<^verbatim>\<open>\t \n \v \f \r\<close> and space, and the separators \<^verbatim>\<open>0x1c..0x1f\<close>.
\<close>

definition is_space :: "char \<Rightarrow> bool" where
  "is_space c = (let n = (of_char c :: nat) in (9 \<le> n \<and> n \<le> 13) \<or> (28 \<le> n \<and> n \<le> 32))"

definition strip :: "string \<Rightarrow> string" where
  "strip s = rev (dropWhile is_space (rev (dropWhile is_space s)))"

definition startswith :: "string \<Rightarrow> string \<Rightarrow> bool" where
  "startswith s p = (take (length p) s = p)"

text \<open>\<^verbatim>\<open>s.split(c)\<close>: the segments between the occurrences of \<open>c\<close>; never empty.\<close>

fun split :: "char \<Rightarrow> string \<Rightarrow> string list" where
  "split c [] = [[]]"
| "split c (x # xs) =
     (if x = c then [] # split c xs
      else (case split c xs of [] \<Rightarrow> [[x]] | p # ps \<Rightarrow> (x # p) # ps))"

text \<open>
  \<^verbatim>\<open>key, value = s.split(c, 1)\<close>: the text before the first \<open>c\<close> and the text after it.
  Without a \<open>c\<close> in \<open>s\<close> the unpacking raises \<^verbatim>\<open>ValueError\<close>, here \<open>None\<close>.
\<close>

definition split1 :: "char \<Rightarrow> string \<Rightarrow> (string \<times> string) option" where
  "split1 c s =
     (if c \<in> set s then Some (takeWhile (\<lambda>x. x \<noteq> c) s, tl (dropWhile (\<lambda>x. x \<noteq> c) s))
      else None)"

text \<open>The byte-order mark \<^verbatim>\<open>U+FEFF\<close>, one character in Python, three bytes in UTF-8.\<close>

definition bom :: string where
  "bom = [char_of (239 :: nat), char_of (187 :: nat), char_of (191 :: nat)]"

section \<open>Numbers\<close>

text \<open>
  Python's \<^verbatim>\<open>float\<close> values are modelled as real numbers: the rounding of IEEE doubles,
  infinities and NaN are not part of the model.  \<^verbatim>\<open>int(x)\<close> truncates towards zero,
  \<^verbatim>\<open>round(x)\<close> rounds to the nearest integer, a tie to the even one.
\<close>

definition py_int :: "real \<Rightarrow> int" where
  "py_int x = (if 0 \<le> x then \<lfloor>x\<rfloor> else \<lceil>x\<rceil>)"

definition py_round :: "real \<Rightarrow> int" where
  "py_round x =
     (let f = \<lfloor>x\<rfloor>; d = x - of_int f
      in if d < 1 / 2 then f else if 1 / 2 < d then f + 1 else if even f then f else f + 1)"

text \<open>
  The builtins \<^verbatim>\<open>float(s)\<close> and \<^verbatim>\<open>int(s)\<close> on a string are parameters of the model
  (\<open>pf\<close> and \<open>pn\<close> below, \<open>None\<close> for \<^verbatim>\<open>ValueError\<close>), so every theorem holds for
  whatever literals they accept.  The two parsers below read plain decimal literals
  (optional sign, digits, optional fraction, surrounding white space); they instantiate
  the parameters where a concrete chart is evaluated.
\<close>

definition is_digit :: "char \<Rightarrow> bool" where
  "is_digit c = (let n = (of_char c :: nat) in 48 \<le> n \<and> n \<le> 57)"

fun digits_val :: "nat \<Rightarrow> string \<Rightarrow> nat" where
  "digits_val acc [] = acc"
| "digits_val acc (c # cs) = digits_val (10 * acc + (of_char c - 48)) cs"

definition dec_sign :: "string \<Rightarrow> bool \<times> string" where
  "dec_sign s =
     (case s of [] \<Rightarrow> (False, [])
      | c # r \<Rightarrow> if c = CHR ''-'' then (True, r) else if c = CHR ''+'' then (False, r) else (False, s))"

definition dec_int :: "string \<Rightarrow> int option" where
  "dec_int s =
     (let (neg, body) = dec_sign (strip s)
      in if body \<noteq> [] \<and> list_all is_digit body
         then Some (if neg then - int (digits_val 0 body) else int (digits_val 0 body))
         else None)"

definition dec_float :: "string \<Rightarrow> real option" where
  "dec_float s =
     (let (neg, body) = dec_sign (strip s);
          ip = takeWhile (\<lambda>x. x \<noteq> CHR ''.'') body;
          fp = drop 1 (dropWhile (\<lambda>x. x \<noteq> CHR ''.'') body)
      in if (ip \<noteq> [] \<or> fp \<noteq> []) \<and> list_all is_digit ip \<and> list_all is_digit fp
         then (let v = real (digits_val 0 ip) + real (digits_val 0 fp) / 10 ^ length fp
               in Some (if neg then - v else v))
         else None)"

section \<open>Lane Mapper\<close>

text \<open>The converter object: \<open>four_key\<close> is the column mode, fixed for a conversion.\<close>

definition num_lanes :: "bool \<Rightarrow> nat" where
  "num_lanes four_key = (if four_key then 4 else 6)"

definition ksh_to_osu_lane :: "bool \<Rightarrow> bool \<Rightarrow> nat \<Rightarrow> nat option" where
  "ksh_to_osu_lane four_key is_fx idx =
     (if four_key then (if is_fx then None else Some (min idx 3))
      else (if is_fx then Some (if idx = 0 then 0 else 5) else Some (1 + min idx 3)))"

definition lane_x_pos :: "bool \<Rightarrow> nat \<Rightarrow> int" where
  "lane_x_pos four_key lane_idx =
     (let col_width = 512 / real (num_lanes four_key);
          x = real lane_idx * col_width + col_width * (1 / 2)
      in py_round x)"

section \<open>Note events and hold state\<close>

text \<open>
  The source appends each event to \<^verbatim>\<open>hit_objects\<close> as a formatted line:
  \<^verbatim>\<open>f"{x},192,{time},1,0,0:0:0:0:"\<close> for an instantaneous hit and
  \<^verbatim>\<open>f"{x},192,{start_time},128,0,{time}"\<close> for a hold.  The model keeps the fields that
  vary.  \<^verbatim>\<open>hold_state\<close> is the dictionary with the keys \<open>0 ..< num_lanes\<close>, here the list
  of its values in key order; the lanes that \<open>ksh_to_osu_lane\<close> returns are keys of it.
\<close>

datatype hit_object = HitCircle int int | HoldNote int int int

type_synonym hold_state = "int option list"

type_synonym note_state = "hold_state \<times> hit_object list"

definition process_bt_note :: "bool \<Rightarrow> char \<Rightarrow> nat \<Rightarrow> int \<Rightarrow> note_state \<Rightarrow> note_state" where
  "process_bt_note four_key ch ksh_idx time s =
     (case ksh_to_osu_lane four_key False ksh_idx of
        None \<Rightarrow> s
      | Some osu_lane \<Rightarrow>
          (let (hs, hos) = s; x = lane_x_pos four_key osu_lane
           in if ch = CHR ''1'' then
                (case hs ! osu_lane of
                   Some start_time \<Rightarrow>
                     (hs[osu_lane := None], hos @ [HoldNote x start_time time, HitCircle x time])
                 | None \<Rightarrow> (hs, hos @ [HitCircle x time]))
              else if ch = CHR ''2'' then
                (case hs ! osu_lane of
                   None \<Rightarrow> (hs[osu_lane := Some time], hos)
                 | Some _ \<Rightarrow> (hs, hos))
              else if ch = CHR ''0'' \<or> ch = CHR '' '' then
                (case hs ! osu_lane of
                   Some start_time \<Rightarrow> (hs[osu_lane := None], hos @ [HoldNote x start_time time])
                 | None \<Rightarrow> (hs, hos))
              else (hs, hos)))"

definition process_fx_note :: "bool \<Rightarrow> char \<Rightarrow> nat \<Rightarrow> int \<Rightarrow> note_state \<Rightarrow> note_state" where
  "process_fx_note four_key ch ksh_idx time s =
     (case ksh_to_osu_lane four_key True ksh_idx of
        None \<Rightarrow> s
      | Some osu_lane \<Rightarrow>
          (let (hs, hos) = s; x = lane_x_pos four_key osu_lane
           in if ch = CHR ''2'' then
                (case hs ! osu_lane of
                   Some start_time \<Rightarrow>
                     (hs[osu_lane := None], hos @ [HoldNote x start_time time, HitCircle x time])
                 | None \<Rightarrow> (hs, hos @ [HitCircle x time]))
              else if ch = CHR ''1'' then
                (case hs ! osu_lane of
                   None \<Rightarrow> (hs[osu_lane := Some time], hos)
                 | Some _ \<Rightarrow> (hs, hos))
              else if ch = CHR ''0'' \<or> ch = CHR '' '' then
                (case hs ! osu_lane of
                   Some start_time \<Rightarrow> (hs[osu_lane := None], hos @ [HoldNote x start_time time])
                 | None \<Rightarrow> (hs, hos))
              else (hs, hos)))"

section \<open>Processing a measure\<close>

datatype error = ValueError | ZeroDivisionError

text \<open>The two \<^verbatim>\<open>enumerate\<close> loops over a line's segments, with their \<^verbatim>\<open>break\<close>.\<close>

fun bt_loop :: "bool \<Rightarrow> int \<Rightarrow> nat \<Rightarrow> string \<Rightarrow> note_state \<Rightarrow> note_state" where
  "bt_loop four_key time bt_idx [] s = s"
| "bt_loop four_key time bt_idx (ch # cs) s =
     (if bt_idx \<ge> 4 then s
      else bt_loop four_key time (Suc bt_idx) cs (process_bt_note four_key ch bt_idx time s))"

fun fx_loop :: "bool \<Rightarrow> int \<Rightarrow> nat \<Rightarrow> string \<Rightarrow> note_state \<Rightarrow> note_state" where
  "fx_loop four_key time fx_idx [] s = s"
| "fx_loop four_key time fx_idx (ch # cs) s =
     (if fx_idx \<ge> 2 then s
      else fx_loop four_key time (Suc fx_idx) cs (process_fx_note four_key ch fx_idx time s))"

definition bt_part :: "string \<Rightarrow> string" where
  "bt_part line = (case split (CHR ''|'') line of [] \<Rightarrow> [] | p # _ \<Rightarrow> p)"

definition fx_part :: "string \<Rightarrow> string" where
  "fx_part line = (case split (CHR ''|'') line of _ # p # _ \<Rightarrow> p | _ \<Rightarrow> [])"

definition process_line :: "bool \<Rightarrow> int \<Rightarrow> string \<Rightarrow> note_state \<Rightarrow> note_state" where
  "process_line four_key line_time line s =
     fx_loop four_key line_time 0 (fx_part line) (bt_loop four_key line_time 0 (bt_part line) s)"

fun process_lines :: "bool \<Rightarrow> real \<Rightarrow> real \<Rightarrow> nat \<Rightarrow> string list \<Rightarrow> note_state \<Rightarrow> note_state" where
  "process_lines four_key start_time line_duration line_idx [] s = s"
| "process_lines four_key start_time line_duration line_idx (line # rest) s =
     process_lines four_key start_time line_duration (Suc line_idx) rest
       (process_line four_key (py_int (start_time + real line_idx * line_duration)) line s)"

subsection \<open>Hold-Boundary Resolver\<close>

fun check_bt_loop :: "bool \<Rightarrow> int \<Rightarrow> nat \<Rightarrow> string \<Rightarrow> note_state \<Rightarrow> note_state" where
  "check_bt_loop four_key measure_end_time bt_idx [] s = s"
| "check_bt_loop four_key measure_end_time bt_idx (ch # cs) s =
     (if bt_idx \<ge> 4 then s
      else check_bt_loop four_key measure_end_time (Suc bt_idx) cs
        (case ksh_to_osu_lane four_key False bt_idx of
           None \<Rightarrow> s
         | Some osu_lane \<Rightarrow>
             (let (hs, hos) = s
              in case hs ! osu_lane of
                   Some start_time \<Rightarrow>
                     if ch \<in> set [CHR ''0'', CHR ''1'', CHR '' '']
                     then (hs[osu_lane := None],
                           hos @ [HoldNote (lane_x_pos four_key osu_lane) start_time measure_end_time])
                     else s
                 | None \<Rightarrow> s)))"

fun check_fx_loop :: "bool \<Rightarrow> int \<Rightarrow> nat \<Rightarrow> string \<Rightarrow> note_state \<Rightarrow> note_state" where
  "check_fx_loop four_key measure_end_time fx_idx [] s = s"
| "check_fx_loop four_key measure_end_time fx_idx (ch # cs) s =
     (if fx_idx \<ge> 2 then s
      else check_fx_loop four_key measure_end_time (Suc fx_idx) cs
        (case ksh_to_osu_lane four_key True fx_idx of
           None \<Rightarrow> s
         | Some osu_lane \<Rightarrow>
             (let (hs, hos) = s
              in case hs ! osu_lane of
                   Some start_time \<Rightarrow>
                     if ch \<in> set [CHR ''0'', CHR ''2'', CHR '' '']
                     then (hs[osu_lane := None],
                           hos @ [HoldNote (lane_x_pos four_key osu_lane) start_time measure_end_time])
                     else s
                 | None \<Rightarrow> s)))"

definition check_cross_measure_holds :: "bool \<Rightarrow> note_state \<Rightarrow> string list \<Rightarrow> int \<Rightarrow> note_state" where
  "check_cross_measure_holds four_key s next_measure_data measure_end_time =
     (if next_measure_data = [] then s
      else (case filter (\<lambda>line. CHR ''|'' \<in> set line) next_measure_data of
              [] \<Rightarrow> s
            | first_line # _ \<Rightarrow>
                check_fx_loop four_key measure_end_time 0 (fx_part first_line)
                  (check_bt_loop four_key measure_end_time 0 (bt_part first_line) s)))"

subsection \<open>The measure processor\<close>

text \<open>
  \<^verbatim>\<open>hold_state\<close> and \<^verbatim>\<open>hit_objects\<close> are mutated in place by the source; the model returns
  them with the new current time.  A tempo of zero raises \<^verbatim>\<open>ZeroDivisionError\<close>.
\<close>

definition process_measure_with_lookahead ::
  "bool \<Rightarrow> string list \<Rightarrow> real \<Rightarrow> real \<Rightarrow> int \<Rightarrow> note_state \<Rightarrow> string list option
     \<Rightarrow> error + real \<times> note_state" where
  "process_measure_with_lookahead four_key note_lines start_time bpm beats s next_measure_data =
     (if note_lines = [] then Inr (start_time, s)
      else if bpm = 0 then Inl ZeroDivisionError
      else
        (let measure_duration = (60000 / bpm) * of_int beats;
             line_duration = measure_duration / real (length note_lines);
             s1 = process_lines four_key start_time line_duration 0 note_lines s;
             s2 = (case next_measure_data of
                     None \<Rightarrow> s1
                   | Some nmd \<Rightarrow>
                       if nmd = [] then s1
                       else check_cross_measure_holds four_key s1 nmd
                              (py_int (start_time + measure_duration)))
         in Inr (start_time + measure_duration, s2)))"

definition process_measure ::
  "bool \<Rightarrow> string list \<Rightarrow> real \<Rightarrow> real \<Rightarrow> int \<Rightarrow> note_state \<Rightarrow> error + real \<times> note_state" where
  "process_measure four_key note_lines start_time bpm beats s =
     process_measure_with_lookahead four_key note_lines start_time bpm beats s None"

subsection \<open>Closing the remaining holds\<close>

fun close_items :: "bool \<Rightarrow> int \<Rightarrow> (nat \<times> int option) list \<Rightarrow> note_state \<Rightarrow> note_state" where
  "close_items four_key final_time [] s = s"
| "close_items four_key final_time ((lane, st) # items) (hs, hos) =
     (case st of
        None \<Rightarrow> close_items four_key final_time items (hs, hos)
      | Some start_time \<Rightarrow>
          close_items four_key final_time items
            (hs[lane := None], hos @ [HoldNote (lane_x_pos four_key lane) start_time final_time]))"

definition close_remaining_holds :: "bool \<Rightarrow> note_state \<Rightarrow> int \<Rightarrow> note_state" where
  "close_remaining_holds four_key s final_time =
     close_items four_key final_time (zip [0 ..< length (fst s)] (fst s)) s"

section \<open>Timeline Builder\<close>

text \<open>
  A tempo marker is appended to \<^verbatim>\<open>timing_points\<close> as the line
  \<^verbatim>\<open>f"{time},{ms_per_beat:.6f},4,1,0,100,1,0"\<close>: the time, the beat length and the
  meter field, which the source writes as the literal 4.
\<close>

record timing_point =
  tp_time :: int
  tp_beat_length :: real
  tp_meter :: int

text \<open>The local variables of \<^verbatim>\<open>parse_chart_data\<close> that its loops update.\<close>

record builder =
  current_bpm :: real
  beats_per_measure :: int
  current_time :: real
  timing_points :: "timing_point list"
  hit_objects :: "hit_object list"
  hold_state :: hold_state

text \<open>
  The body of the inner loop for one stripped line that is not the delimiter:
  \<open>ml\<close> is \<^verbatim>\<open>measure_lines\<close>.
\<close>

definition chart_line ::
  "(string \<Rightarrow> real option) \<Rightarrow> (string \<Rightarrow> int option) \<Rightarrow> builder \<Rightarrow> string list \<Rightarrow> string
     \<Rightarrow> error + builder \<times> string list" where
  "chart_line pf pn st ml line =
     (if line = [] then Inr (st, ml)
      else if startswith line ''fx-l='' \<or> startswith line ''fx-r='' then Inr (st, ml)
      else if startswith line ''t='' then
        (case pf (drop 2 line) of
           None \<Rightarrow> Inr (st, ml)
         | Some new_bpm \<Rightarrow>
             if \<bar>new_bpm - current_bpm st\<bar> > 1 / 1000 then
               (if new_bpm = 0 then Inl ZeroDivisionError
                else Inr (st\<lparr>current_bpm := new_bpm,
                            timing_points := timing_points st @
                              [\<lparr>tp_time = py_int (current_time st),
                                tp_beat_length = 60000 / new_bpm, tp_meter = 4\<rparr>]\<rparr>, ml))
             else Inr (st, ml))
      else if startswith line ''beat='' then
        (let beat_str = drop 5 line
         in case (if CHR ''/'' \<in> set beat_str
                  then (case split (CHR ''/'') beat_str of [] \<Rightarrow> None | p # _ \<Rightarrow> pn p)
                  else pn beat_str) of
              None \<Rightarrow> Inr (st, ml)
            | Some n \<Rightarrow> Inr (st\<lparr>beats_per_measure := n\<rparr>, ml))
      else if CHR ''='' \<in> set line then Inr (st, ml)
      else Inr (st, ml @ [line]))"

text \<open>
  The inner loop: it stops at the delimiter or at the end of the input and returns
  the lines that remain (the source's index \<open>i\<close> is the position of that suffix).
\<close>

fun collect_measure ::
  "(string \<Rightarrow> real option) \<Rightarrow> (string \<Rightarrow> int option) \<Rightarrow> builder \<Rightarrow> string list \<Rightarrow> string list
     \<Rightarrow> error + builder \<times> string list \<times> string list" where
  "collect_measure pf pn st ml [] = Inr (st, ml, [])"
| "collect_measure pf pn st ml (raw # rest) =
     (if strip raw = ''--'' then Inr (st, ml, raw # rest)
      else (case chart_line pf pn st ml (strip raw) of
              Inl e \<Rightarrow> Inl e
            | Inr (st', ml') \<Rightarrow> collect_measure pf pn st' ml' rest))"

text \<open>The step \<^verbatim>\<open># Process measure\<close> of the outer loop.\<close>

definition finish_measure :: "bool \<Rightarrow> builder \<Rightarrow> real \<Rightarrow> string list \<Rightarrow> error + builder" where
  "finish_measure four_key st measure_start_time ml =
     (if ml \<noteq> [] then
        (let note_lines = filter (\<lambda>ln. CHR ''|'' \<in> set ln) ml
         in if note_lines \<noteq> [] then
              (case process_measure four_key note_lines measure_start_time (current_bpm st)
                      (beats_per_measure st) (hold_state st, hit_objects st) of
                 Inl e \<Rightarrow> Inl e
               | Inr (t, hs, hos) \<Rightarrow>
                   Inr (st\<lparr>current_time := t, hold_state := hs, hit_objects := hos\<rparr>))
            else if current_bpm st = 0 then Inl ZeroDivisionError
            else
              (let measure_duration = (60000 / current_bpm st) * of_int (beats_per_measure st)
               in Inr (st\<lparr>current_time := current_time st + measure_duration\<rparr>)))
      else Inr st)"

text \<open>One round of the outer loop: a measure and the delimiter after it.\<close>

definition measure_step ::
  "(string \<Rightarrow> real option) \<Rightarrow> (string \<Rightarrow> int option) \<Rightarrow> bool \<Rightarrow> builder \<Rightarrow> string list
     \<Rightarrow> error + builder \<times> string list" where
  "measure_step pf pn four_key st lines =
     (case collect_measure pf pn st [] lines of
        Inl e \<Rightarrow> Inl e
      | Inr (st1, ml, rest) \<Rightarrow>
          (case finish_measure four_key st1 (current_time st) ml of
             Inl e \<Rightarrow> Inl e
           | Inr st2 \<Rightarrow> Inr (st2, (case rest of [] \<Rightarrow> [] | _ # r \<Rightarrow> r))))"

text \<open>The outer loop over the measures, on the lines from \<open>start_idx\<close> on.\<close>

function measures ::
  "(string \<Rightarrow> real option) \<Rightarrow> (string \<Rightarrow> int option) \<Rightarrow> bool \<Rightarrow> builder \<Rightarrow> string list
     \<Rightarrow> error + builder" where
  "measures pf pn four_key st lines =
     (if lines = [] then Inr st
      else (case measure_step pf pn four_key st lines of
              Inl e \<Rightarrow> Inl e
            | Inr (st2, rest) \<Rightarrow> measures pf pn four_key st2 rest))"
  by pat_completeness auto
termination
proof (relation "measure (\<lambda>(pf, pn, four_key, st, lines). length lines)", goal_cases)
  case 1
  show ?case by simp
next
  case (2 pf pn four_key st lines x2 st2 rest)
  have le: "length r \<le> length ls" if "collect_measure pf pn s ml ls = Inr (s1, ml', r)"
    for s ml ls s1 ml' r
    using that
    by (induction ls arbitrary: s ml) (fastforce split: if_splits sum.splits intro: le_SucI)+
  from 2 obtain st1 ml r where c: "collect_measure pf pn st [] lines = Inr (st1, ml, r)"
    and r: "rest = (case r of [] \<Rightarrow> [] | _ # q \<Rightarrow> q)"
    by (auto simp: measure_step_def split: sum.splits)
  from le [OF c] r 2(1) show ?case by (cases lines; cases r) auto
qed

declare measures.simps [simp del]

text \<open>
  The header values.  \<^verbatim>\<open>float(meta.get('t', 120))\<close> is not guarded; the offset is:
  an absent or empty value is 0, an unparsable one and one beyond 30000 in magnitude too.
\<close>

definition initial_bpm :: "(string \<Rightarrow> real option) \<Rightarrow> (string \<rightharpoonup> string) \<Rightarrow> error + real" where
  "initial_bpm pf meta =
     (case meta ''t'' of
        None \<Rightarrow> Inr 120
      | Some v \<Rightarrow> (case pf v of None \<Rightarrow> Inl ValueError | Some b \<Rightarrow> Inr b))"

definition parsed_offset :: "(string \<Rightarrow> real option) \<Rightarrow> (string \<rightharpoonup> string) \<Rightarrow> real" where
  "parsed_offset pf meta =
     (case meta ''o'' of
        None \<Rightarrow> 0
      | Some raw_offset \<Rightarrow>
          if raw_offset = [] then 0
          else (case pf raw_offset of
                  None \<Rightarrow> 0
                | Some v \<Rightarrow> if \<bar>v\<bar> > 30000 then 0 else v))"

definition start_time :: "(string \<Rightarrow> real option) \<Rightarrow> int \<Rightarrow> (string \<rightharpoonup> string) \<Rightarrow> int" where
  "start_time pf custom_offset_ms meta = py_int (parsed_offset pf meta) + custom_offset_ms"

definition initial_builder :: "bool \<Rightarrow> real \<Rightarrow> int \<Rightarrow> builder" where
  "initial_builder four_key bpm t0 =
     \<lparr>current_bpm = bpm, beats_per_measure = 4, current_time = of_int t0,
      timing_points = [\<lparr>tp_time = t0, tp_beat_length = 60000 / bpm, tp_meter = 4\<rparr>],
      hit_objects = [], hold_state = replicate (num_lanes four_key) None\<rparr>"

text \<open>
  \<open>timeline\<close> is \<^verbatim>\<open>parse_chart_data\<close> up to its \<^verbatim>\<open>return\<close>, with all its local
  variables; \<open>parse_chart_data\<close> returns the two lists.
\<close>

definition timeline ::
  "(string \<Rightarrow> real option) \<Rightarrow> (string \<Rightarrow> int option) \<Rightarrow> bool \<Rightarrow> int \<Rightarrow> string list \<Rightarrow> nat
     \<Rightarrow> (string \<rightharpoonup> string) \<Rightarrow> error + builder" where
  "timeline pf pn four_key custom_offset_ms lines start_idx meta =
     (case initial_bpm pf meta of
        Inl e \<Rightarrow> Inl e
      | Inr bpm \<Rightarrow>
          if bpm = 0 then Inl ZeroDivisionError
          else
            (case measures pf pn four_key
                    (initial_builder four_key bpm (start_time pf custom_offset_ms meta))
                    (drop start_idx lines) of
               Inl e \<Rightarrow> Inl e
             | Inr st \<Rightarrow>
                 (let (hs, hos) = close_remaining_holds four_key (hold_state st, hit_objects st)
                                    (py_int (current_time st))
                  in Inr (st\<lparr>hold_state := hs, hit_objects := hos\<rparr>))))"

definition parse_chart_data ::
  "(string \<Rightarrow> real option) \<Rightarrow> (string \<Rightarrow> int option) \<Rightarrow> bool \<Rightarrow> int \<Rightarrow> string list \<Rightarrow> nat
     \<Rightarrow> (string \<rightharpoonup> string) \<Rightarrow> error + timing_point list \<times> hit_object list" where
  "parse_chart_data pf pn four_key custom_offset_ms lines start_idx meta =
     (case timeline pf pn four_key custom_offset_ms lines start_idx meta of
        Inl e \<Rightarrow> Inl e
      | Inr st \<Rightarrow> Inr (timing_points st, hit_objects st))"

section \<open>Metadata Extractor\<close>

definition meta_line :: "(string \<rightharpoonup> string) \<Rightarrow> string \<Rightarrow> (string \<rightharpoonup> string)" where
  "meta_line meta line =
     (if CHR ''='' \<in> set line \<and> \<not> startswith line ''#'' then
        (case split1 (CHR ''='') line of
           None \<Rightarrow> meta
         | Some (k, v) \<Rightarrow>
             (let key = strip k; value = strip v;
                  key = (if startswith key bom then drop (length bom) key else key)
              in meta(key \<mapsto> value)))
      else meta)"

fun meta_loop :: "(string \<rightharpoonup> string) \<Rightarrow> nat \<Rightarrow> string list \<Rightarrow> (string \<rightharpoonup> string) \<times> nat" where
  "meta_loop meta i [] = (meta, i)"
| "meta_loop meta i (raw # rest) =
     (if strip raw = ''--'' then (meta, i + 1)
      else meta_loop (meta_line meta (strip raw)) (i + 1) rest)"

definition parse_ksh_metadata :: "string list \<Rightarrow> (string \<rightharpoonup> string) \<times> nat" where
  "parse_ksh_metadata lines = meta_loop Map.empty 0 lines"

section \<open>Beatmap Serializer\<close>

definition meta_get :: "(string \<rightharpoonup> string) \<Rightarrow> string \<Rightarrow> string \<Rightarrow> string" where
  "meta_get meta k d = (case meta k of None \<Rightarrow> d | Some v \<Rightarrow> v)"

text \<open>\<^verbatim>\<open>os.path.basename\<close> with the separator \<^verbatim>\<open>/\<close>.\<close>

definition basename :: "string \<Rightarrow> string" where
  "basename p = rev (takeWhile (\<lambda>c. c \<noteq> CHR ''/'') (rev p))"

fun join :: "string \<Rightarrow> string list \<Rightarrow> string" where
  "join sep [] = []"
| "join sep [x] = x"
| "join sep (x # y # ys) = x @ sep @ join sep (y # ys)"

text \<open>
  The list \<^verbatim>\<open>lines\<close> that \<^verbatim>\<open>create_osu_content\<close> builds; \<open>timing_points\<close> and
  \<open>hit_objects\<close> are the formatted lines of the Timeline Builder.
\<close>

definition osu_lines :: "bool \<Rightarrow> (string \<rightharpoonup> string) \<Rightarrow> string list \<Rightarrow> string list \<Rightarrow> string list" where
  "osu_lines four_key meta tps hos =
     (let title = meta_get meta ''title'' ''Untitled'';
          artist = meta_get meta ''artist'' ''Unknown Artist'';
          creator = meta_get meta ''effect'' ''ksh2osu'';
          difficulty = meta_get meta ''difficulty'' ''converted'';
          level = meta_get meta ''level'' '''';
          version = strip (difficulty @ '' '' @ level);
          audio_file = meta_get meta ''m'' ''audio.ogg'';
          illustrator = meta_get meta ''illustrator'' '''';
          keycount = (if four_key then ''4'' else ''6'');
          lines =
            [''osu file format v14'', '''',
             ''[General]'', ''AudioFilename: '' @ basename audio_file, ''AudioLeadIn: 0'',
             ''PreviewTime: -1'', ''Countdown: 0'', ''SampleSet: Normal'',
             ''StackLeniency: 0.7'', ''Mode: 3'', ''LetterboxInBreaks: 0'',
             ''SpecialStyle: 0'', ''WidescreenStoryboard: 0'', '''',
             ''[Editor]'', ''DistanceSpacing: 1'', ''BeatDivisor: 4'', ''GridSize: 4'',
             ''TimelineZoom: 1'', '''',
             ''[Metadata]'', ''Title:'' @ title, ''TitleUnicode:'' @ title,
             ''Artist:'' @ artist, ''ArtistUnicode:'' @ artist, ''Creator:'' @ creator,
             ''Version:'' @ version @ '' '' @ keycount @ ''K'', ''Source:'',
             strip (''Tags:'' @ illustrator @ '' '' @ keycount @ ''K KSH''),
             ''BeatmapID:0'', ''BeatmapSetID:-1'', '''',
             ''[Difficulty]'', ''HPDrainRate:7'', ''CircleSize:'' @ keycount,
             ''OverallDifficulty:8'', ''ApproachRate:5'', ''SliderMultiplier:1.4'',
             ''SliderTickRate:1'', '''',
             ''[Events]'', ''//Background and Video events'', ''//Break Periods'',
             ''//Storyboard Layer 0 (Background)'', ''//Storyboard Layer 1 (Fail)'',
             ''//Storyboard Layer 2 (Pass)'', ''//Storyboard Layer 3 (Foreground)'',
             ''//Storyboard Layer 4 (Overlay)'', ''//Storyboard Sound Samples''];
          bg_file = meta_get meta ''bg'' '''';
          lines = (if bg_file \<noteq> [] then lines @ [''0,0,'' @ [CHR 0x22] @ basename bg_file @ [CHR 0x22] @ '',0,0'']
                   else lines);
          lines = lines @ ['''', ''[TimingPoints]''];
          lines = lines @ tps;
          lines = lines @ ['''', ''[HitObjects]''];
          lines = lines @ hos
      in lines)"

definition create_osu_content ::
  "bool \<Rightarrow> (string \<rightharpoonup> string) \<Rightarrow> string list \<Rightarrow> string list \<Rightarrow> string" where
  "create_osu_content four_key meta tps hos = join [CHR 0x0A] (osu_lines four_key meta tps hos)"

section \<open>The conversion\<close>

text \<open>
  \<^verbatim>\<open>convert_ksh_to_osu\<close> between reading the chart and writing the beatmap: the header,
  then the timeline of the lines after it.
\<close>

definition convert_ksh_to_osu ::
  "(string \<Rightarrow> real option) \<Rightarrow> (string \<Rightarrow> int option) \<Rightarrow> bool \<Rightarrow> int \<Rightarrow> string list
     \<Rightarrow> error + timing_point list \<times> hit_object list" where
  "convert_ksh_to_osu pf pn four_key custom_offset_ms lines =
     (let (meta, chart_start) = parse_ksh_metadata lines
      in parse_chart_data pf pn four_key custom_offset_ms lines chart_start meta)"

section \<open>The metadata mapping, as specified\<close>

text \<open>
  The header is the lines before the first delimiter, stripped.  A line is an entry
  when it contains \<^verbatim>\<open>=\<close> and does not begin with \<^verbatim>\<open>#\<close>; its key is the stripped text
  before the first \<^verbatim>\<open>=\<close>, without a leading byte-order mark, its value the stripped
  text after it.
\<close>

definition header_lines :: "string list \<Rightarrow> string list" where
  "header_lines lines = map strip (takeWhile (\<lambda>l. strip l \<noteq> ''--'') lines)"

definition is_entry :: "string \<Rightarrow> bool" where
  "is_entry line = (CHR ''='' \<in> set line \<and> \<not> startswith line ''#'')"

definition entry_of :: "string \<Rightarrow> string \<times> string" where
  "entry_of line =
     (let key = strip (takeWhile (\<lambda>x. x \<noteq> CHR ''='') line);
          value = strip (tl (dropWhile (\<lambda>x. x \<noteq> CHR ''='') line))
      in (if startswith key bom then drop (length bom) key else key, value))"

definition metadata_entries :: "string list \<Rightarrow> (string \<times> string) list" where
  "metadata_entries lines = map entry_of (filter is_entry (header_lines lines))"

section \<open>The lane characters of a line\<close>

text \<open>
  What a line keeps when everything but the first four characters of its first
  segment and the first two of its second segment is dropped: the rest of the two
  segments, the second separator and all that follows it.
\<close>

definition lane_chars :: "string \<Rightarrow> string" where
  "lane_chars line =
     (let bt = takeWhile (\<lambda>c. c \<noteq> CHR ''|'') line
      in case dropWhile (\<lambda>c. c \<noteq> CHR ''|'') line of
           [] \<Rightarrow> take 4 bt
         | _ # r \<Rightarrow> take 4 bt @ ''|'' @ take 2 (takeWhile (\<lambda>c. c \<noteq> CHR ''|'') r))"

section \<open>The holds open at the end\<close>

text \<open>
  The hold events that close, at \<open>final_time\<close>, the columns of \<open>hs\<close> with an open
  hold, in column order.
\<close>

definition open_holds :: "bool \<Rightarrow> hold_state \<Rightarrow> int \<Rightarrow> hit_object list" where
  "open_holds four_key hs final_time =
     concat (map (\<lambda>(lane, h). case h of None \<Rightarrow> []
                               | Some s \<Rightarrow> [HoldNote (lane_x_pos four_key lane) s final_time])
                 (zip [0 ..< length hs] hs))"

section \<open>The tempo changes of a chart body\<close>

text \<open>
  The tempos that the lines of a chart body set, in order, from the tempo \<open>bpm\<close> on:
  a line \<^verbatim>\<open>t=v\<close> counts when \<open>v\<close> parses to a tempo that differs from the tempo in
  effect by more than 0.001.
\<close>

fun tempo_trace :: "(string \<Rightarrow> real option) \<Rightarrow> real \<Rightarrow> string list \<Rightarrow> real list" where
  "tempo_trace pf bpm [] = []"
| "tempo_trace pf bpm (raw # rest) =
     (case (if startswith (strip raw) ''t='' then pf (drop 2 (strip raw)) else None) of
        None \<Rightarrow> tempo_trace pf bpm rest
      | Some b \<Rightarrow>
          if 1 / 1000 < \<bar>b - bpm\<bar> then b # tempo_trace pf b rest
          else tempo_trace pf bpm rest)"

section \<open>A measure, as read from its lines\<close>

text \<open>
  What the lines from the start of a measure on determine, stated on the lines
  themselves.  The measure is made of the lines before the first delimiter; the next
  measure starts after that delimiter.  The data lines of the measure are its stripped
  lines that are not blank and contain no \<^verbatim>\<open>=\<close>; the note-data lines are the data lines
  with a separator.  \<open>beats_after\<close> is the time signature in effect after the lines:
  a line \<^verbatim>\<open>beat=v\<close> sets it when \<open>v\<close>, or the text of \<open>v\<close> before its first \<^verbatim>\<open>/\<close>,
  parses as an integer.  \<open>tempo_after\<close> is the tempo in effect after the lines.
\<close>

definition measure_raw :: "string list \<Rightarrow> string list" where
  "measure_raw lines = takeWhile (\<lambda>l. strip l \<noteq> ''--'') lines"

definition after_measure :: "string list \<Rightarrow> string list" where
  "after_measure lines = drop 1 (dropWhile (\<lambda>l. strip l \<noteq> ''--'') lines)"

definition data_lines :: "string list \<Rightarrow> string list" where
  "data_lines lines =
     filter (\<lambda>l. l \<noteq> [] \<and> CHR ''='' \<notin> set l) (map strip (measure_raw lines))"

definition note_lines_of :: "string list \<Rightarrow> string list" where
  "note_lines_of lines = filter (\<lambda>l. CHR ''|'' \<in> set l) (data_lines lines)"

fun beats_after :: "(string \<Rightarrow> int option) \<Rightarrow> int \<Rightarrow> string list \<Rightarrow> int" where
  "beats_after pn n [] = n"
| "beats_after pn n (raw # rest) =
     (if startswith (strip raw) ''beat='' then
        (let beat_str = drop 5 (strip raw)
         in case (if CHR ''/'' \<in> set beat_str
                  then pn (takeWhile (\<lambda>c. c \<noteq> CHR ''/'') beat_str)
                  else pn beat_str) of
              None \<Rightarrow> beats_after pn n rest
            | Some m \<Rightarrow> beats_after pn m rest)
      else beats_after pn n rest)"

definition tempo_after :: "(string \<Rightarrow> real option) \<Rightarrow> real \<Rightarrow> string list \<Rightarrow> real" where
  "tempo_after pf bpm lines = last (bpm # tempo_trace pf bpm lines)"

text \<open>The marker of a tempo \<open>b\<close> set at the time \<open>t\<close>.\<close>

definition marker_at :: "int \<Rightarrow> real \<Rightarrow> timing_point" where
  "marker_at t b = \<lparr>tp_time = t, tp_beat_length = 60000 / b, tp_meter = 4\<rparr>"

section \<open>Times of events, charts with sound tempos\<close>

text \<open>
  The time at which an event is emitted is the time of a hit and the end of a hold;
  its start is the time of a hit and the start of a hold.  \<open>beats_trace\<close> lists the
  time signatures that the lines of a chart body set, in order.
\<close>

fun emit_time :: "hit_object \<Rightarrow> int" where
  "emit_time (HitCircle x t) = t"
| "emit_time (HoldNote x s e) = e"

fun start_of :: "hit_object \<Rightarrow> int" where
  "start_of (HitCircle x t) = t"
| "start_of (HoldNote x s e) = s"

fun beats_trace :: "(string \<Rightarrow> int option) \<Rightarrow> string list \<Rightarrow> int list" where
  "beats_trace pn [] = []"
| "beats_trace pn (raw # rest) =
     (if startswith (strip raw) ''beat='' then
        (let beat_str = drop 5 (strip raw)
         in case (if CHR ''/'' \<in> set beat_str
                  then pn (takeWhile (\<lambda>c. c \<noteq> CHR ''/'') beat_str)
                  else pn beat_str) of
              None \<Rightarrow> beats_trace pn rest
            | Some m \<Rightarrow> m # beats_trace pn rest)
      else beats_trace pn rest)"

text \<open>
  The invariant of the note state at the clock time \<open>now\<close>, with \<open>lo\<close> the global start
  time and \<open>n\<close> the number of columns: every open hold started between \<open>lo\<close> and
  \<open>now\<close>; every emitted hold starts at or after \<open>lo\<close> and ends at or after its start;
  the events were emitted in the order of their times, none after \<open>now\<close>.
\<close>

definition notes_inv :: "nat \<Rightarrow> int \<Rightarrow> int \<Rightarrow> note_state \<Rightarrow> bool" where
  "notes_inv n lo now s =
     (length (fst s) = n \<and> lo \<le> now \<and>
      (\<forall>t. Some t \<in> set (fst s) \<longrightarrow> lo \<le> t \<and> t \<le> now) \<and>
      (\<forall>x t e. HoldNote x t e \<in> set (snd s) \<longrightarrow> lo \<le> t \<and> t \<le> e) \<and>
      (\<forall>ev \<in> set (snd s). emit_time ev \<le> now) \<and>
      sorted (map emit_time (snd s)))"

definition builder_inv :: "bool \<Rightarrow> int \<Rightarrow> builder \<Rightarrow> bool" where
  "builder_inv four_key lo st =
     (0 < current_bpm st \<and> 0 \<le> beats_per_measure st \<and>
      notes_inv (num_lanes four_key) lo (py_int (current_time st))
        (hold_state st, hit_objects st) \<and>
      sorted (map tp_time (timing_points st)) \<and>
      (\<forall>tp \<in> set (timing_points st). tp_time tp \<le> py_int (current_time st)))"

section \<open>Splitting a string\<close>

lemma split_takeWhile:
  "split c s = takeWhile (\<lambda>x. x \<noteq> c) s #
     (case dropWhile (\<lambda>x. x \<noteq> c) s of [] \<Rightarrow> [] | _ # r \<Rightarrow> split c r)"
  by (induction s) (auto split: list.splits)

section \<open>The builder's loops\<close>

subsection \<open>The hold state keeps its columns\<close>

lemma length_process_bt_note: "length (fst (process_bt_note fk ch i t s)) = length (fst s)"
  by (cases s) (simp add: process_bt_note_def Let_def split: option.splits)

lemma length_process_fx_note: "length (fst (process_fx_note fk ch i t s)) = length (fst s)"
  by (cases s) (simp add: process_fx_note_def Let_def split: option.splits)

lemma length_bt_loop: "length (fst (bt_loop fk t i cs s)) = length (fst s)"
  by (induction cs arbitrary: i s) (simp_all add: length_process_bt_note)

lemma length_fx_loop: "length (fst (fx_loop fk t i cs s)) = length (fst s)"
  by (induction cs arbitrary: i s) (simp_all add: length_process_fx_note)

lemma length_process_lines:
  "length (fst (process_lines fk t0 ld i ls s)) = length (fst s)"
  by (induction ls arbitrary: i s) (simp_all add: process_line_def length_fx_loop length_bt_loop)

lemma length_process_measure:
  "process_measure fk ls t0 bpm beats s = Inr (t, s') \<Longrightarrow> length (fst s') = length (fst s)"
  by (auto simp: process_measure_def process_measure_with_lookahead_def Let_def
        length_process_lines split: if_splits)

lemma length_finish_measure:
  "finish_measure fk st t0 ml = Inr st' \<Longrightarrow> length (hold_state st') = length (hold_state st)"
  by (auto simp: finish_measure_def Let_def split: if_splits sum.splits
        dest!: length_process_measure)

lemma chart_line_notes:
  "chart_line pf pn st ml line = Inr (st', ml') \<Longrightarrow>
     current_time st' = current_time st \<and> hold_state st' = hold_state st \<and>
     hit_objects st' = hit_objects st"
  by (auto simp: chart_line_def Let_def split: if_splits option.splits)

lemma collect_measure_notes:
  "collect_measure pf pn st ml lines = Inr (st', ml', rest) \<Longrightarrow>
     current_time st' = current_time st \<and> hold_state st' = hold_state st \<and>
     hit_objects st' = hit_objects st"
proof (induction lines arbitrary: st ml)
  case Nil
  then show ?case by simp
next
  case (Cons raw lines)
  show ?case
  proof (cases "strip raw = ''--''")
    case True
    with Cons.prems show ?thesis by simp
  next
    case False
    with Cons.prems obtain st1 ml1 where
      c: "chart_line pf pn st ml (strip raw) = Inr (st1, ml1)" and
      r: "collect_measure pf pn st1 ml1 lines = Inr (st', ml', rest)"
      by (auto split: sum.splits)
    from chart_line_notes [OF c] Cons.IH [OF r] show ?thesis by simp
  qed
qed

lemma length_measure_step:
  assumes "measure_step pf pn fk st lines = Inr (st', rest)"
  shows "length (hold_state st') = length (hold_state st)"
proof -
  from assms obtain st1 ml r where
    c: "collect_measure pf pn st [] lines = Inr (st1, ml, r)" and
    f: "finish_measure fk st1 (current_time st) ml = Inr st'"
    by (auto simp: measure_step_def split: sum.splits)
  from collect_measure_notes [OF c] length_finish_measure [OF f] show ?thesis by simp
qed

lemma length_measures:
  "measures pf pn fk st lines = Inr st' \<Longrightarrow> length (hold_state st') = length (hold_state st)"
proof (induction pf pn fk st lines rule: measures.induct)
  case (1 pf pn fk st lines)
  show ?case
  proof (cases "lines = []")
    case True
    with "1.prems" show ?thesis by (simp add: measures.simps)
  next
    case False
    with "1.prems" obtain st2 rest where
      m: "measure_step pf pn fk st lines = Inr (st2, rest)" and
      r: "measures pf pn fk st2 rest = Inr st'"
      by (subst (asm) measures.simps) (auto split: sum.splits)
    from "1.IH" [OF False m refl r] length_measure_step [OF m] show ?thesis by simp
  qed
qed

subsection \<open>Closing\<close>

lemma close_items_events:
  "snd (close_items fk ft items (hs, hos)) =
     hos @ concat (map (\<lambda>(lane, h). case h of None \<Rightarrow> []
                               | Some s \<Rightarrow> [HoldNote (lane_x_pos fk lane) s ft]) items)"
  by (induction items arbitrary: hs hos) (auto split: option.splits)

lemma length_close_items: "length (fst (close_items fk ft items (hs, hos))) = length hs"
  by (induction items arbitrary: hs hos) (auto split: option.splits)

lemma close_items_nth:
  "j < length hs \<Longrightarrow>
     fst (close_items fk ft items (hs, hos)) ! j =
       (if \<exists>s. (j, Some s) \<in> set items then None else hs ! j)"
proof (induction items arbitrary: hs hos)
  case Nil
  then show ?case by simp
next
  case (Cons item items)
  obtain lane h where item: "item = (lane, h)" by (cases item)
  show ?case
  proof (cases h)
    case None
    with item Cons.IH [OF Cons.prems, of hos] show ?thesis by simp
  next
    case (Some s)
    from Cons.prems have "j < length (hs[lane := None])" by simp
    from Cons.IH [OF this] item Some Cons.prems show ?thesis
      by (cases "j = lane") auto
  qed
qed

lemma close_remaining_holds_eq:
  "close_remaining_holds fk (hs, hos) ft = (replicate (length hs) None, hos @ open_holds fk hs ft)"
proof -
  let ?r = "close_items fk ft (zip [0 ..< length hs] hs) (hs, hos)"
  have "fst ?r ! j = None" if "j < length hs" for j
  proof (cases "hs ! j")
    case None
    from that have "fst ?r ! j = None \<or> fst ?r ! j = hs ! j"
      by (simp only: close_items_nth split: if_split) simp
    with None show ?thesis by simp
  next
    case (Some s)
    have "(j, Some s) \<in> set (zip [0 ..< length hs] hs)"
      unfolding in_set_zip using that Some by (intro exI [of _ j]) simp
    then have "\<exists>s. (j, Some s) \<in> set (zip [0 ..< length hs] hs)" ..
    with that show ?thesis by (simp only: close_items_nth if_True)
  qed
  then have "fst ?r = replicate (length hs) None"
    by (intro nth_equalityI) (simp_all add: length_close_items)
  moreover have "snd ?r = hos @ open_holds fk hs ft"
    by (simp add: close_items_events open_holds_def)
  ultimately show ?thesis
    by (simp add: close_remaining_holds_def prod_eq_iff)
qed


section \<open>Tempo changes\<close>

subsection \<open>Tempo markers\<close>

lemma startswith_Cons: "startswith (c # cs) (p # ps) \<longleftrightarrow> c = p \<and> startswith cs ps"
  by (simp add: startswith_def)

lemma startswith_Nil: "startswith [] (p # ps) = False"
  by (simp add: startswith_def)

lemma not_tempo_line:
  "line = [] \<or> startswith line ''fx-l='' \<or> startswith line ''fx-r='' \<or> startswith line ''beat='' \<or> line = ''--''
     \<Longrightarrow> \<not> startswith line ''t=''"
  by (cases line) (auto simp: startswith_Cons startswith_Nil)










subsection \<open>A measure as a function of its lines\<close>

lemma startswith_has_eq:
  "startswith line ''fx-l='' \<or> startswith line ''fx-r='' \<or> startswith line ''t='' \<or>
   startswith line ''beat='' \<Longrightarrow> CHR ''='' \<in> set line"
proof -
  have "CHR ''='' \<in> set p \<Longrightarrow> startswith line p \<Longrightarrow> CHR ''='' \<in> set line" for p
    unfolding startswith_def by (metis in_set_takeD)
  from this [of "''fx-l=''"] this [of "''fx-r=''"] this [of "''t=''"] this [of "''beat=''"]
  show "startswith line ''fx-l='' \<or> startswith line ''fx-r='' \<or> startswith line ''t='' \<or>
   startswith line ''beat='' \<Longrightarrow> CHR ''='' \<in> set line"
    by auto
qed

lemma not_beat_line:
  "line = [] \<or> startswith line ''fx-l='' \<or> startswith line ''fx-r='' \<or> startswith line ''t=''
     \<Longrightarrow> \<not> startswith line ''beat=''"
  by (cases line) (auto simp: startswith_Cons startswith_Nil)

lemma split_head: "(case split c s of [] \<Rightarrow> None | p # _ \<Rightarrow> f p) = f (takeWhile (\<lambda>x. x \<noteq> c) s)"
  by (subst split_takeWhile) simp

lemma chart_line_eq:
  "chart_line pf pn st ml (strip raw) =
     (if 0 \<in> set (tempo_trace pf (current_bpm st) [raw]) then Inl ZeroDivisionError
      else Inr (st\<lparr>current_bpm := tempo_after pf (current_bpm st) [raw],
                  beats_per_measure := beats_after pn (beats_per_measure st) [raw],
                  timing_points := timing_points st @
                    map (marker_at (py_int (current_time st)))
                      (tempo_trace pf (current_bpm st) [raw])\<rparr>,
                ml @ filter (\<lambda>l. l \<noteq> [] \<and> CHR ''='' \<notin> set l) [strip raw]))"
proof -
  let ?l = "strip raw"
  consider (blank) "?l = []"
    | (fx) "?l \<noteq> []" "startswith ?l ''fx-l='' \<or> startswith ?l ''fx-r=''"
    | (tempo) "startswith ?l ''t=''"
    | (beat) "startswith ?l ''beat=''"
    | (other) "?l \<noteq> []" "\<not> startswith ?l ''fx-l=''" "\<not> startswith ?l ''fx-r=''"
        "\<not> startswith ?l ''t=''" "\<not> startswith ?l ''beat=''"
    by blast
  then show ?thesis
  proof cases
    case blank
    then show ?thesis
      by (simp add: chart_line_def tempo_after_def startswith_Nil)
  next
    case fx
    with not_tempo_line [of ?l] not_beat_line [of ?l] startswith_has_eq [of ?l]
    have "\<not> startswith ?l ''t=''" "\<not> startswith ?l ''beat=''" "CHR ''='' \<in> set ?l" by auto
    with fx show ?thesis by (auto simp: chart_line_def tempo_after_def)
  next
    case tempo
    with not_tempo_line [of ?l] not_beat_line [of ?l] startswith_has_eq [of ?l]
    have "?l \<noteq> []" "\<not> startswith ?l ''fx-l=''" "\<not> startswith ?l ''fx-r=''"
      "\<not> startswith ?l ''beat=''" "CHR ''='' \<in> set ?l" by auto
    with tempo show ?thesis
      by (auto simp: chart_line_def tempo_after_def marker_at_def split: option.splits)
  next
    case beat
    with not_tempo_line [of ?l] not_beat_line [of ?l] startswith_has_eq [of ?l]
    have "?l \<noteq> []" "\<not> startswith ?l ''fx-l=''" "\<not> startswith ?l ''fx-r=''"
      "\<not> startswith ?l ''t=''" "CHR ''='' \<in> set ?l" by auto
    with beat show ?thesis
      by (auto simp: chart_line_def tempo_after_def Let_def split_head split: option.splits)
  next
    case other
    then show ?thesis by (auto simp: chart_line_def tempo_after_def)
  qed
qed

lemma tempo_trace_Cons:
  "tempo_trace pf bpm (raw # rest) =
     tempo_trace pf bpm [raw] @ tempo_trace pf (tempo_after pf bpm [raw]) rest"
  by (simp add: tempo_after_def split: option.splits)

lemma tempo_after_Cons:
  "tempo_after pf bpm (raw # rest) = tempo_after pf (tempo_after pf bpm [raw]) rest"
  by (simp add: tempo_after_def split: option.splits)

lemma beats_after_Cons:
  "beats_after pn n (raw # rest) = beats_after pn (beats_after pn n [raw]) rest"
  by (simp add: Let_def split: option.splits)

lemma tempo_after_nonzero:
  "bpm \<noteq> 0 \<Longrightarrow> 0 \<notin> set (tempo_trace pf bpm lines) \<Longrightarrow> tempo_after pf bpm lines \<noteq> 0"
  unfolding tempo_after_def by (cases "tempo_trace pf bpm lines = []") (auto dest: last_in_set)

lemma collect_measure_eq:
  "collect_measure pf pn st ml lines =
     (if 0 \<in> set (tempo_trace pf (current_bpm st) (measure_raw lines)) then Inl ZeroDivisionError
      else Inr (st\<lparr>current_bpm := tempo_after pf (current_bpm st) (measure_raw lines),
                  beats_per_measure := beats_after pn (beats_per_measure st) (measure_raw lines),
                  timing_points := timing_points st @
                    map (marker_at (py_int (current_time st)))
                      (tempo_trace pf (current_bpm st) (measure_raw lines))\<rparr>,
                ml @ data_lines lines,
                dropWhile (\<lambda>l. strip l \<noteq> ''--'') lines))"
proof (induction lines arbitrary: st ml)
  case Nil
  show ?case by (simp add: measure_raw_def data_lines_def tempo_after_def)
next
  case (Cons raw lines)
  show ?case
  proof (cases "strip raw = ''--''")
    case True
    then show ?thesis by (simp add: measure_raw_def data_lines_def tempo_after_def)
  next
    case False
    then have m: "measure_raw (raw # lines) = raw # measure_raw lines"
      and d: "data_lines (raw # lines) =
                filter (\<lambda>l. l \<noteq> [] \<and> CHR ''='' \<notin> set l) [strip raw] @ data_lines lines"
      and r: "dropWhile (\<lambda>l. strip l \<noteq> ''--'') (raw # lines)
                = dropWhile (\<lambda>l. strip l \<noteq> ''--'') lines"
      by (simp_all add: measure_raw_def data_lines_def)
    show ?thesis
    proof (cases "0 \<in> set (tempo_trace pf (current_bpm st) [raw])")
      case True
      then have "0 \<in> set (tempo_trace pf (current_bpm st) (raw # measure_raw lines))"
        by (subst tempo_trace_Cons) simp
      with True False show ?thesis
        by (simp only: collect_measure.simps chart_line_eq m if_True if_False sum.case)
    next
      case z: False
      let ?st1 = "st\<lparr>current_bpm := tempo_after pf (current_bpm st) [raw],
                  beats_per_measure := beats_after pn (beats_per_measure st) [raw],
                  timing_points := timing_points st @
                    map (marker_at (py_int (current_time st)))
                      (tempo_trace pf (current_bpm st) [raw])\<rparr>"
      let ?ml1 = "ml @ filter (\<lambda>l. l \<noteq> [] \<and> CHR ''='' \<notin> set l) [strip raw]"
      have c: "collect_measure pf pn st ml (raw # lines) = collect_measure pf pn ?st1 ?ml1 lines"
        using z False by (simp only: collect_measure.simps chart_line_eq if_False sum.case prod.case)
      have t: "tempo_trace pf (current_bpm st) (raw # measure_raw lines) =
                 tempo_trace pf (current_bpm st) [raw] @
                 tempo_trace pf (current_bpm ?st1) (measure_raw lines)"
        by (subst tempo_trace_Cons) simp
      have a: "tempo_after pf (current_bpm st) (raw # measure_raw lines) =
                 tempo_after pf (current_bpm ?st1) (measure_raw lines)"
        by (subst tempo_after_Cons) simp
      have b: "beats_after pn (beats_per_measure st) (raw # measure_raw lines) =
                 beats_after pn (beats_per_measure ?st1) (measure_raw lines)"
        by (subst beats_after_Cons) simp
      show ?thesis
        unfolding c Cons.IH m d r t a b using z by simp
    qed
  qed
qed

lemma tail_drop: "(case xs of [] \<Rightarrow> [] | _ # r \<Rightarrow> r) = drop 1 xs"
  by (cases xs) simp_all

lemma measure_step_eq:
  assumes "current_bpm st \<noteq> 0"
    and "0 \<notin> set (tempo_trace pf (current_bpm st) (measure_raw lines))"
  shows "measure_step pf pn four_key st lines =
     (let bpm = tempo_after pf (current_bpm st) (measure_raw lines);
          beats = beats_after pn (beats_per_measure st) (measure_raw lines);
          measure_duration = 60000 / bpm * of_int beats;
          nl = note_lines_of lines;
          s = (if nl = [] then (hold_state st, hit_objects st)
               else process_lines four_key (current_time st)
                      (measure_duration / real (length nl)) 0 nl
                      (hold_state st, hit_objects st))
      in Inr (st\<lparr>current_bpm := bpm, beats_per_measure := beats,
                 timing_points := timing_points st @
                   map (marker_at (py_int (current_time st)))
                     (tempo_trace pf (current_bpm st) (measure_raw lines)),
                 current_time :=
                   (if data_lines lines = [] then current_time st
                    else current_time st + measure_duration),
                 hold_state := fst s, hit_objects := snd s\<rparr>,
              after_measure lines))"
proof -
  have nz: "tempo_after pf (current_bpm st) (measure_raw lines) \<noteq> 0"
    using assms by (rule tempo_after_nonzero)
  have r: "(case dropWhile (\<lambda>l. strip l \<noteq> ''--'') lines of [] \<Rightarrow> [] | _ # r \<Rightarrow> r)
             = after_measure lines"
    unfolding after_measure_def by (rule tail_drop)
  show ?thesis
    using assms(2) nz
    by (auto simp: measure_step_def collect_measure_eq finish_measure_def process_measure_def
          process_measure_with_lookahead_def note_lines_of_def Let_def r
          split: prod.splits)
qed

subsection \<open>Events stay, other columns stay\<close>


















subsection \<open>The clock of the builder\<close>

lemma py_int_mono: "x \<le> y \<Longrightarrow> py_int x \<le> py_int y"
proof -
  assume xy: "x \<le> y"
  consider "0 \<le> x" | "x < 0" "y < 0" | "x < 0" "0 \<le> y" using xy by linarith
  then show ?thesis
  proof cases
    case 1
    with xy show ?thesis by (simp add: py_int_def floor_mono)
  next
    case 2
    with xy show ?thesis by (simp add: py_int_def ceiling_mono)
  next
    case 3
    then have "\<lceil>x\<rceil> \<le> 0" "0 \<le> \<lfloor>y\<rfloor>" by (simp_all add: ceiling_le_zero)
    moreover from 3 have "py_int x = \<lceil>x\<rceil>" "py_int y = \<lfloor>y\<rfloor>" by (simp_all add: py_int_def)
    ultimately show ?thesis by linarith
  qed
qed

lemma py_int_of_int: "py_int (of_int k) = k"
  by (simp add: py_int_def)

lemma notes_inv_mono: "notes_inv n lo now s \<Longrightarrow> now \<le> now' \<Longrightarrow> notes_inv n lo now' s"
  unfolding notes_inv_def by (meson order_trans)

lemma notes_inv_tap:
  assumes "notes_inv n lo now (hs, hos)" "now \<le> t"
  shows "notes_inv n lo t (hs, hos @ [HitCircle x t])"
  using assms unfolding notes_inv_def
  by (auto simp: sorted_append intro: order_trans)

lemma notes_inv_open:
  assumes "notes_inv n lo now (hs, hos)" "now \<le> t"
  shows "notes_inv n lo t (hs[lane := Some t], hos)"
proof -
  have "Some u \<in> set (hs[lane := Some t]) \<Longrightarrow> u = t \<or> Some u \<in> set hs" for u
    using set_update_subset_insert [of hs lane "Some t"] by auto
  with assms show ?thesis unfolding notes_inv_def
    by (auto intro: order_trans)
qed

lemma notes_inv_close:
  assumes "notes_inv n lo now (hs, hos)" "now \<le> t" "lane < n" "hs ! lane = Some st"
  shows "notes_inv n lo t (hs[lane := None], hos @ [HoldNote x st t])"
proof -
  have up: "Some u \<in> set (hs[lane := None]) \<Longrightarrow> Some u \<in> set hs" for u
    using set_update_subset_insert [of hs lane None] by auto
  from assms have "Some st \<in> set hs" unfolding notes_inv_def by (auto dest: nth_mem)
  with assms have "lo \<le> st" "st \<le> t" unfolding notes_inv_def by (auto intro: order_trans)
  with assms up show ?thesis unfolding notes_inv_def
    by (auto simp: sorted_append intro: order_trans)
qed

lemma lane_in_range: "ksh_to_osu_lane fk is_fx j = Some lane \<Longrightarrow> lane < num_lanes fk"
  by (auto simp: ksh_to_osu_lane_def num_lanes_def split: if_splits)

lemma notes_inv_bt_note:
  assumes "notes_inv (num_lanes fk) lo now s" "now \<le> t"
  shows "notes_inv (num_lanes fk) lo t (process_bt_note fk ch j t s)"
proof (cases "ksh_to_osu_lane fk False j")
  case None
  with assms show ?thesis by (simp add: process_bt_note_def notes_inv_mono)
next
  case (Some lane)
  obtain hs hos where s: "s = (hs, hos)" by (cases s)
  from Some have r: "lane < num_lanes fk" by (rule lane_in_range)
  note i = assms(1) [unfolded s]
  show ?thesis
  proof (cases "hs ! lane")
    case None
    with Some s notes_inv_tap [OF i assms(2)] notes_inv_open [OF i assms(2)]
      notes_inv_mono [OF i assms(2)]
    show ?thesis by (simp add: process_bt_note_def Let_def)
  next
    case (Some st)
    note c = notes_inv_close [OF i assms(2) r Some]
    from notes_inv_tap [OF c order_refl]
    have "notes_inv (num_lanes fk) lo t
            (hs[lane := None], hos @ [HoldNote x st t, HitCircle x t])" for x
      by simp
    with \<open>ksh_to_osu_lane fk False j = Some lane\<close> s Some c notes_inv_mono [OF i assms(2)]
    show ?thesis by (simp add: process_bt_note_def Let_def)
  qed
qed

lemma notes_inv_fx_note:
  assumes "notes_inv (num_lanes fk) lo now s" "now \<le> t"
  shows "notes_inv (num_lanes fk) lo t (process_fx_note fk ch j t s)"
proof (cases "ksh_to_osu_lane fk True j")
  case None
  with assms show ?thesis by (simp add: process_fx_note_def notes_inv_mono)
next
  case (Some lane)
  obtain hs hos where s: "s = (hs, hos)" by (cases s)
  from Some have r: "lane < num_lanes fk" by (rule lane_in_range)
  note i = assms(1) [unfolded s]
  show ?thesis
  proof (cases "hs ! lane")
    case None
    with Some s notes_inv_tap [OF i assms(2)] notes_inv_open [OF i assms(2)]
      notes_inv_mono [OF i assms(2)]
    show ?thesis by (simp add: process_fx_note_def Let_def)
  next
    case (Some st)
    note c = notes_inv_close [OF i assms(2) r Some]
    from notes_inv_tap [OF c order_refl]
    have "notes_inv (num_lanes fk) lo t
            (hs[lane := None], hos @ [HoldNote x st t, HitCircle x t])" for x
      by simp
    with \<open>ksh_to_osu_lane fk True j = Some lane\<close> s Some c notes_inv_mono [OF i assms(2)]
    show ?thesis by (simp add: process_fx_note_def Let_def)
  qed
qed

lemma notes_inv_bt_loop:
  "notes_inv (num_lanes fk) lo now s \<Longrightarrow> now \<le> t \<Longrightarrow>
     notes_inv (num_lanes fk) lo t (bt_loop fk t j cs s)"
proof (induction cs arbitrary: j s now)
  case Nil
  then show ?case by (simp add: notes_inv_mono)
next
  case (Cons c cs)
  from Cons.IH [OF notes_inv_bt_note [OF Cons.prems] order_refl] Cons.prems
  show ?case by (simp add: notes_inv_mono)
qed

lemma notes_inv_fx_loop:
  "notes_inv (num_lanes fk) lo now s \<Longrightarrow> now \<le> t \<Longrightarrow>
     notes_inv (num_lanes fk) lo t (fx_loop fk t j cs s)"
proof (induction cs arbitrary: j s now)
  case Nil
  then show ?case by (simp add: notes_inv_mono)
next
  case (Cons c cs)
  from Cons.IH [OF notes_inv_fx_note [OF Cons.prems] order_refl] Cons.prems
  show ?case by (simp add: notes_inv_mono)
qed

lemma notes_inv_process_line:
  "notes_inv (num_lanes fk) lo now s \<Longrightarrow> now \<le> t \<Longrightarrow>
     notes_inv (num_lanes fk) lo t (process_line fk t line s)"
  unfolding process_line_def
  by (rule notes_inv_fx_loop [OF notes_inv_bt_loop order_refl])

lemma notes_inv_process_lines:
  "notes_inv (num_lanes fk) lo now s \<Longrightarrow> 0 \<le> ld \<Longrightarrow> now \<le> py_int (t0 + real i * ld) \<Longrightarrow>
     notes_inv (num_lanes fk) lo (py_int (t0 + real (i + length ls) * ld))
       (process_lines fk t0 ld i ls s)"
proof (induction ls arbitrary: i s now)
  case Nil
  then show ?case by (simp add: notes_inv_mono)
next
  case (Cons l ls)
  have "real i * ld \<le> real (Suc i) * ld" using Cons.prems(2) by (simp add: mult_right_mono)
  then have m: "py_int (t0 + real i * ld) \<le> py_int (t0 + real (Suc i) * ld)"
    by (intro py_int_mono) simp
  from Cons.IH [OF notes_inv_process_line [OF Cons.prems(1,3)] Cons.prems(2) m]
  show ?case by simp
qed

subsection \<open>The invariant of the builder\<close>

lemma beats_after_trace: "beats_after pn n lines = last (n # beats_trace pn lines)"
  by (induction lines arbitrary: n) (auto simp: Let_def split: option.splits)

lemma tempo_after_pos:
  "0 < bpm \<Longrightarrow> \<forall>b \<in> set (tempo_trace pf bpm lines). 0 < b \<Longrightarrow> 0 < tempo_after pf bpm lines"
  unfolding tempo_after_def by (cases "tempo_trace pf bpm lines = []") (auto dest: last_in_set)

lemma beats_after_nonneg:
  "0 \<le> n \<Longrightarrow> \<forall>m \<in> set (beats_trace pn lines). 0 \<le> m \<Longrightarrow> 0 \<le> beats_after pn n lines"
  unfolding beats_after_trace by (cases "beats_trace pn lines = []") (auto dest: last_in_set)

lemma tempo_trace_measure:
  "tempo_trace pf bpm lines =
     tempo_trace pf bpm (measure_raw lines) @
     tempo_trace pf (tempo_after pf bpm (measure_raw lines)) (after_measure lines)"
proof (induction lines arbitrary: bpm)
  case Nil
  show ?case by (simp add: measure_raw_def after_measure_def tempo_after_def)
next
  case (Cons raw lines)
  show ?case
  proof (cases "strip raw = ''--''")
    case True
    with not_tempo_line [of "strip raw"] show ?thesis
      by (simp add: measure_raw_def after_measure_def tempo_after_def)
  next
    case False
    then have m: "measure_raw (raw # lines) = raw # measure_raw lines"
      and a: "after_measure (raw # lines) = after_measure lines"
      by (simp_all add: measure_raw_def after_measure_def)
    have A: "tempo_trace pf bpm (raw # measure_raw lines) =
               tempo_trace pf bpm [raw] @
               tempo_trace pf (tempo_after pf bpm [raw]) (measure_raw lines)"
      by (rule tempo_trace_Cons)
    have B: "tempo_after pf bpm (raw # measure_raw lines) =
               tempo_after pf (tempo_after pf bpm [raw]) (measure_raw lines)"
      by (rule tempo_after_Cons)
    have C: "tempo_trace pf bpm (raw # lines) =
               tempo_trace pf bpm [raw] @ tempo_trace pf (tempo_after pf bpm [raw]) lines"
      by (rule tempo_trace_Cons)
    have D: "tempo_trace pf (tempo_after pf bpm [raw]) lines =
        tempo_trace pf (tempo_after pf bpm [raw]) (measure_raw lines) @
        tempo_trace pf (tempo_after pf (tempo_after pf bpm [raw]) (measure_raw lines))
          (after_measure lines)"
      by (rule Cons.IH)
    show ?thesis
      by (simp only: m a A B append_assoc) (simp only: C D)
  qed
qed

lemma beats_trace_measure:
  "set (beats_trace pn lines) =
     set (beats_trace pn (measure_raw lines)) \<union> set (beats_trace pn (after_measure lines))"
proof (induction lines)
  case Nil
  show ?case by (simp add: measure_raw_def after_measure_def)
next
  case (Cons raw lines)
  show ?case
  proof (cases "strip raw = ''--''")
    case True
    then have "\<not> startswith (strip raw) ''beat=''" by (simp add: startswith_def)
    with True show ?thesis by (simp add: measure_raw_def after_measure_def)
  next
    case False
    then have m: "measure_raw (raw # lines) = raw # measure_raw lines"
      and a: "after_measure (raw # lines) = after_measure lines"
      by (simp_all add: measure_raw_def after_measure_def)
    from Cons.IH show ?thesis unfolding m a
      by (auto simp: Let_def split: option.splits)
  qed
qed

lemma sorted_markers:
  assumes "sorted (map tp_time tps)" "\<forall>tp \<in> set tps. tp_time tp \<le> t"
  shows "sorted (map tp_time (tps @ map (marker_at t) bs))"
proof -
  have "map tp_time (map (marker_at t) bs) = replicate (length bs) t"
    by (induction bs) (simp_all add: marker_at_def)
  with assms show ?thesis by (auto simp: sorted_append marker_at_def)
qed

lemma builder_inv_measure_step:
  assumes "builder_inv fk lo st"
    and "\<forall>b \<in> set (tempo_trace pf (current_bpm st) (measure_raw lines)). 0 < b"
    and "\<forall>n \<in> set (beats_trace pn (measure_raw lines)). 0 \<le> n"
  shows "\<exists>st'. measure_step pf pn fk st lines = Inr (st', after_measure lines) \<and>
           builder_inv fk lo st' \<and>
           current_bpm st' = tempo_after pf (current_bpm st) (measure_raw lines)"
proof -
  let ?bpm = "tempo_after pf (current_bpm st) (measure_raw lines)"
  let ?beats = "beats_after pn (beats_per_measure st) (measure_raw lines)"
  let ?md = "60000 / ?bpm * of_int ?beats"
  let ?nl = "note_lines_of lines"
  let ?ld = "?md / real (length ?nl)"
  let ?s = "if ?nl = [] then (hold_state st, hit_objects st)
            else process_lines fk (current_time st) ?ld 0 ?nl (hold_state st, hit_objects st)"
  let ?ct = "if data_lines lines = [] then current_time st else current_time st + ?md"
  let ?tps = "timing_points st @
                map (marker_at (py_int (current_time st)))
                  (tempo_trace pf (current_bpm st) (measure_raw lines))"
  let ?st' = "st\<lparr>current_bpm := ?bpm, beats_per_measure := ?beats, timing_points := ?tps,
                  current_time := ?ct, hold_state := fst ?s, hit_objects := snd ?s\<rparr>"
  from assms(1) have b0: "0 < current_bpm st" and n0: "0 \<le> beats_per_measure st"
    and ni: "notes_inv (num_lanes fk) lo (py_int (current_time st)) (hold_state st, hit_objects st)"
    and ts: "sorted (map tp_time (timing_points st))"
    and tb: "\<forall>tp \<in> set (timing_points st). tp_time tp \<le> py_int (current_time st)"
    by (simp_all add: builder_inv_def)
  from b0 have nz: "current_bpm st \<noteq> 0" by simp
  from assms(2) have z: "0 \<notin> set (tempo_trace pf (current_bpm st) (measure_raw lines))"
    by auto
  have step: "measure_step pf pn fk st lines = Inr (?st', after_measure lines)"
    using measure_step_eq [OF nz z, of pn fk] by (simp add: Let_def)
  have bp: "0 < ?bpm" using b0 assms(2) by (rule tempo_after_pos)
  have np: "0 \<le> ?beats" using n0 assms(3) by (rule beats_after_nonneg)
  from bp np have md: "0 \<le> ?md" by simp
  then have ct: "current_time st \<le> ?ct" by simp
  then have pct: "py_int (current_time st) \<le> py_int ?ct" by (rule py_int_mono)
  have nts: "notes_inv (num_lanes fk) lo (py_int ?ct) ?s"
  proof (cases "?nl = []")
    case True
    with notes_inv_mono [OF ni pct] show ?thesis by simp
  next
    case False
    then have d: "data_lines lines \<noteq> []" by (auto simp: note_lines_of_def)
    from False have l: "0 < real (length ?nl)" by simp
    from md l have ld: "0 \<le> ?ld" by (rule divide_nonneg_pos)
    have e: "real (0 + length ?nl) * ?ld = ?md" using l by simp
    have "notes_inv (num_lanes fk) lo (py_int (current_time st + real (0 + length ?nl) * ?ld))
            (process_lines fk (current_time st) ?ld 0 ?nl (hold_state st, hit_objects st))"
      using ni ld by (rule notes_inv_process_lines) simp
    with False d show ?thesis by (simp only: e if_False)
  qed
  have marks: "sorted (map tp_time ?tps)" using ts tb by (rule sorted_markers)
  have mb: "\<forall>tp \<in> set ?tps. tp_time tp \<le> py_int ?ct"
    using tb pct by (auto simp: marker_at_def)
  have "builder_inv fk lo ?st'"
    unfolding builder_inv_def using bp np nts marks mb by simp
  with step show ?thesis by auto
qed

lemma builder_inv_measures:
  "builder_inv fk lo st \<Longrightarrow>
   \<forall>b \<in> set (tempo_trace pf (current_bpm st) lines). 0 < b \<Longrightarrow>
   \<forall>n \<in> set (beats_trace pn lines). 0 \<le> n \<Longrightarrow>
     \<exists>st'. measures pf pn fk st lines = Inr st' \<and> builder_inv fk lo st'"
proof (induction pf pn fk st lines rule: measures.induct)
  case (1 pf pn fk st lines)
  show ?case
  proof (cases "lines = []")
    case True
    with "1.prems" show ?thesis by (simp add: measures.simps)
  next
    case False
    from "1.prems"(2) have t1: "\<forall>b \<in> set (tempo_trace pf (current_bpm st) (measure_raw lines)). 0 < b"
      by (subst (asm) tempo_trace_measure) auto
    from "1.prems"(3) have n1: "\<forall>n \<in> set (beats_trace pn (measure_raw lines)). 0 \<le> n"
      by (simp add: beats_trace_measure [of pn lines])
    from builder_inv_measure_step [OF "1.prems"(1) t1 n1] obtain st2 where
      m: "measure_step pf pn fk st lines = Inr (st2, after_measure lines)" and
      i: "builder_inv fk lo st2" and
      b: "current_bpm st2 = tempo_after pf (current_bpm st) (measure_raw lines)"
      by blast
    from "1.prems"(2) b have t2: "\<forall>b \<in> set (tempo_trace pf (current_bpm st2) (after_measure lines)). 0 < b"
      by (subst (asm) tempo_trace_measure) auto
    from "1.prems"(3) have n2: "\<forall>n \<in> set (beats_trace pn (after_measure lines)). 0 \<le> n"
      by (simp add: beats_trace_measure [of pn lines])
    from "1.IH" [OF False m refl i t2 n2] m False show ?thesis
      by (subst measures.simps) simp
  qed
qed

lemma open_holds_mem:
  "ev \<in> set (open_holds fk hs ft) \<Longrightarrow> \<exists>x s. ev = HoldNote x s ft \<and> Some s \<in> set hs"
  unfolding open_holds_def by (auto split: option.splits dest: set_zip_rightD)

lemma sorted_const: "\<forall>x \<in> set xs. f x = (c :: int) \<Longrightarrow> sorted (map f xs)"
  by (induction xs) auto

lemma builder_inv_initial: "builder_inv fk lo (initial_builder fk bpm lo) \<longleftrightarrow> 0 < bpm"
  by (auto simp: builder_inv_def initial_builder_def notes_inv_def py_int_of_int)

lemma timeline_inv:
  assumes "initial_bpm pf meta = Inr bpm" and "0 < bpm"
    and "\<forall>b \<in> set (tempo_trace pf bpm (drop start_idx lines)). 0 < b"
    and "\<forall>n \<in> set (beats_trace pn (drop start_idx lines)). 0 \<le> n"
  shows "\<exists>st. timeline pf pn fk custom_offset_ms lines start_idx meta = Inr st \<and>
           (\<forall>x s e. HoldNote x s e \<in> set (hit_objects st) \<longrightarrow>
              start_time pf custom_offset_ms meta \<le> s \<and> s \<le> e) \<and>
           sorted (map emit_time (hit_objects st)) \<and>
           sorted (map tp_time (timing_points st))"
proof -
  let ?lo = "start_time pf custom_offset_ms meta"
  let ?i = "initial_builder fk bpm ?lo"
  have i: "builder_inv fk ?lo ?i" using assms(2) by (simp add: builder_inv_initial)
  have t: "\<forall>b \<in> set (tempo_trace pf (current_bpm ?i) (drop start_idx lines)). 0 < b"
    using assms(3) by (simp add: initial_builder_def)
  from builder_inv_measures [OF i t assms(4)] obtain st0 where
    m: "measures pf pn fk ?i (drop start_idx lines) = Inr st0" and
    b: "builder_inv fk ?lo st0" by blast
  let ?ft = "py_int (current_time st0)"
  let ?oh = "open_holds fk (hold_state st0) ?ft"
  let ?st = "st0\<lparr>hold_state := replicate (length (hold_state st0)) None,
                  hit_objects := hit_objects st0 @ ?oh\<rparr>"
  from assms(1,2) m have tl: "timeline pf pn fk custom_offset_ms lines start_idx meta = Inr ?st"
    by (simp add: timeline_def close_remaining_holds_eq)
  from b have n: "notes_inv (num_lanes fk) ?lo ?ft (hold_state st0, hit_objects st0)"
    and ts: "sorted (map tp_time (timing_points st0))"
    by (simp_all add: builder_inv_def)
  have oh: "\<exists>x s. ev = HoldNote x s ?ft \<and> ?lo \<le> s \<and> s \<le> ?ft" if "ev \<in> set ?oh" for ev
    using open_holds_mem [OF that] n unfolding notes_inv_def by auto
  have h: "?lo \<le> s \<and> s \<le> e" if "HoldNote x s e \<in> set (hit_objects ?st)" for x s e
  proof (cases "HoldNote x s e \<in> set (hit_objects st0)")
    case True
    with n show ?thesis unfolding notes_inv_def by auto
  next
    case False
    with that have "HoldNote x s e \<in> set ?oh" by simp
    from oh [OF this] show ?thesis by auto
  qed
  have et: "emit_time ev = ?ft" if "ev \<in> set ?oh" for ev
  proof -
    from oh [OF that] obtain x s where "ev = HoldNote x s ?ft" by blast
    then show ?thesis by simp
  qed
  then have so: "sorted (map emit_time ?oh)" by (intro sorted_const [where c = ?ft]) simp
  from so et n have e: "sorted (map emit_time (hit_objects ?st))"
    unfolding notes_inv_def by (auto simp: sorted_append)
  from tl h e ts show ?thesis by auto
qed

section \<open>Malformed numbers\<close>

text \<open>
  C8.  A chart whose offset, tempo or time signature does not parse as a number is
  still converted, the default standing in for the malformed value.  The body's
  \<^verbatim>\<open>t=\<close> and \<^verbatim>\<open>beat=\<close> lines and the header's offset are guarded in the source; the
  header's tempo is not: a header \<^verbatim>\<open>t=120-180\<close> (a tempo range, as charts with several
  tempos declare it) makes \<^verbatim>\<open>float\<close> raise \<^verbatim>\<open>ValueError\<close> and the conversion ends
  with that error instead of using 120.
\<close>

theorem header_tempo_unparsable_aborts:
  "convert_ksh_to_osu dec_float dec_int False 0 [''t=120-180'', ''--'', ''1000|00'']
     = Inl ValueError"
  by code_simp

section \<open>Metadata extraction\<close>

lemma meta_line_entry:
  "meta_line meta line =
     (if is_entry line then meta(fst (entry_of line) \<mapsto> snd (entry_of line)) else meta)"
  by (simp add: meta_line_def is_entry_def entry_of_def split1_def Let_def)

lemma meta_loop_entries:
  "fst (meta_loop meta i lines) = meta ++ map_of (rev (metadata_entries lines))"
proof (induction lines arbitrary: meta i)
  case Nil
  show ?case by (simp add: metadata_entries_def header_lines_def)
next
  case (Cons raw rest)
  show ?case
  proof (cases "strip raw = ''--''")
    case True
    then show ?thesis by (simp add: metadata_entries_def header_lines_def)
  next
    case False
    have "metadata_entries (raw # rest) =
            (if is_entry (strip raw) then [entry_of (strip raw)] else []) @ metadata_entries rest"
      using False by (simp add: metadata_entries_def header_lines_def)
    with False Cons.IH [of "meta_line meta (strip raw)" "i + 1"] show ?thesis
      by (cases "entry_of (strip raw)") (simp add: meta_line_entry)
  qed
qed

text \<open>
  C9, as the claim states it, fails on a line with an empty key: the header line
  \<^verbatim>\<open>=foo\<close> is not skipped, it stores \<^verbatim>\<open>foo\<close> under the empty key.
\<close>

theorem empty_key_is_inserted:
  "fst (parse_ksh_metadata [''=foo'']) '''' = Some ''foo''"
  by code_simp

text \<open>
  C9, amended.  The metadata mapping holds, for every stripped line before the first
  delimiter that contains \<^verbatim>\<open>=\<close> and does not begin with \<^verbatim>\<open>#\<close>, the stripped key
  (a leading byte-order mark removed) with the stripped value, a later entry
  overwriting an earlier one with the same key.  A line without \<^verbatim>\<open>=\<close> inserts nothing;
  a line with an empty key inserts its value under the empty key.
\<close>

theorem metadata_mapping:
  "fst (parse_ksh_metadata lines) = map_of (rev (metadata_entries lines))"
  by (simp add: parse_ksh_metadata_def meta_loop_entries)


section \<open>The segments of a note-data line\<close>

lemma bt_part_takeWhile: "bt_part line = takeWhile (\<lambda>c. c \<noteq> CHR ''|'') line"
  by (subst bt_part_def, subst split_takeWhile) simp

lemma fx_part_takeWhile:
  "fx_part line =
     (case dropWhile (\<lambda>c. c \<noteq> CHR ''|'') line of
        [] \<Rightarrow> []
      | _ # r \<Rightarrow> takeWhile (\<lambda>c. c \<noteq> CHR ''|'') r)"
proof (cases "dropWhile (\<lambda>c. c \<noteq> CHR ''|'') line")
  case Nil
  have "split (CHR ''|'') line = [takeWhile (\<lambda>c. c \<noteq> CHR ''|'') line]"
    by (subst split_takeWhile) (simp only: Nil list.case)
  then show ?thesis by (simp only: fx_part_def Nil list.case)
next
  case (Cons a r)
  have "split (CHR ''|'') line = takeWhile (\<lambda>c. c \<noteq> CHR ''|'') line # split (CHR ''|'') r"
    by (subst split_takeWhile) (simp only: Cons list.case)
  moreover obtain q where "split (CHR ''|'') r = takeWhile (\<lambda>c. c \<noteq> CHR ''|'') r # q"
    using split_takeWhile [of "CHR ''|''" r] by blast
  ultimately show ?thesis by (simp only: fx_part_def Cons list.case)
qed

lemma takeWhile_prefix_bar:
  "CHR ''|'' \<notin> set xs \<Longrightarrow> takeWhile (\<lambda>c. c \<noteq> CHR ''|'') (xs @ CHR ''|'' # ys) = xs"
  by (induction xs) auto

lemma dropWhile_prefix_bar:
  "CHR ''|'' \<notin> set xs \<Longrightarrow> dropWhile (\<lambda>c. c \<noteq> CHR ''|'') (xs @ CHR ''|'' # ys) = CHR ''|'' # ys"
  by (induction xs) auto

lemma no_bar_take_takeWhile: "CHR ''|'' \<notin> set (take n (takeWhile (\<lambda>c. c \<noteq> CHR ''|'') xs))"
  by (auto dest!: in_set_takeD set_takeWhileD)

lemma takeWhile_no_bar: "CHR ''|'' \<notin> set xs \<Longrightarrow> takeWhile (\<lambda>c. c \<noteq> CHR ''|'') xs = xs"
  by (induction xs) auto

lemma dropWhile_no_bar: "CHR ''|'' \<notin> set xs \<Longrightarrow> dropWhile (\<lambda>c. c \<noteq> CHR ''|'') xs = []"
  by (induction xs) auto

lemma bt_part_lane_chars: "bt_part (lane_chars line) = take 4 (bt_part line)"
  by (cases "dropWhile (\<lambda>c. c \<noteq> CHR ''|'') line")
     (simp_all only: bt_part_takeWhile lane_chars_def Let_def list.case append_Cons append_Nil
        takeWhile_prefix_bar [OF no_bar_take_takeWhile] takeWhile_no_bar [OF no_bar_take_takeWhile])

lemma fx_part_lane_chars: "fx_part (lane_chars line) = take 2 (fx_part line)"
proof (cases "dropWhile (\<lambda>c. c \<noteq> CHR ''|'') line")
  case Nil
  then show ?thesis
    by (simp only: fx_part_takeWhile lane_chars_def Let_def list.case
          dropWhile_no_bar [OF no_bar_take_takeWhile] take.simps)
next
  case (Cons a r)
  then show ?thesis
    by (simp only: fx_part_takeWhile lane_chars_def Let_def list.case append_Cons append_Nil
          dropWhile_prefix_bar [OF no_bar_take_takeWhile] takeWhile_no_bar [OF no_bar_take_takeWhile])
qed

lemma bar_lane_chars: "CHR ''|'' \<in> set (lane_chars line) \<longleftrightarrow> CHR ''|'' \<in> set line"
proof (cases "dropWhile (\<lambda>c. c \<noteq> CHR ''|'') line")
  case Nil
  then have "CHR ''|'' \<notin> set line" by (auto simp: dropWhile_eq_Nil_conv)
  moreover have "CHR ''|'' \<notin> set (lane_chars line)"
    by (simp only: lane_chars_def Let_def Nil list.case no_bar_take_takeWhile not_False_eq_True)
  ultimately show ?thesis by simp
next
  case (Cons a r)
  then have "dropWhile (\<lambda>c. c \<noteq> CHR ''|'') line \<noteq> []" by simp
  then have "CHR ''|'' \<in> set line" by (auto simp: dropWhile_eq_Nil_conv)
  then show ?thesis by (simp add: lane_chars_def Cons)
qed

lemma bt_loop_take: "bt_loop fk t i (take (4 - i) cs) s = bt_loop fk t i cs s"
proof (induction cs arbitrary: i s)
  case Nil
  show ?case by simp
next
  case (Cons c cs)
  show ?case
  proof (cases "4 \<le> i")
    case True
    then show ?thesis by simp
  next
    case False
    then have "4 - i = Suc (4 - Suc i)" by simp
    then have e: "take (4 - i) (c # cs) = c # take (4 - Suc i) cs" by simp
    show ?thesis by (simp only: e bt_loop.simps Cons.IH)
  qed
qed

lemma fx_loop_take: "fx_loop fk t i (take (2 - i) cs) s = fx_loop fk t i cs s"
proof (induction cs arbitrary: i s)
  case Nil
  show ?case by simp
next
  case (Cons c cs)
  show ?case
  proof (cases "2 \<le> i")
    case True
    then show ?thesis by simp
  next
    case False
    then have "2 - i = Suc (2 - Suc i)" by simp
    then have e: "take (2 - i) (c # cs) = c # take (2 - Suc i) cs" by simp
    show ?thesis by (simp only: e fx_loop.simps Cons.IH)
  qed
qed

lemma check_bt_loop_take: "check_bt_loop fk t i (take (4 - i) cs) s = check_bt_loop fk t i cs s"
proof (induction cs arbitrary: i s)
  case Nil
  show ?case by simp
next
  case (Cons c cs)
  show ?case
  proof (cases "4 \<le> i")
    case True
    then show ?thesis by simp
  next
    case False
    then have "4 - i = Suc (4 - Suc i)" by simp
    then have e: "take (4 - i) (c # cs) = c # take (4 - Suc i) cs" by simp
    show ?thesis by (simp only: e check_bt_loop.simps Cons.IH)
  qed
qed

lemma check_fx_loop_take: "check_fx_loop fk t i (take (2 - i) cs) s = check_fx_loop fk t i cs s"
proof (induction cs arbitrary: i s)
  case Nil
  show ?case by simp
next
  case (Cons c cs)
  show ?case
  proof (cases "2 \<le> i")
    case True
    then show ?thesis by simp
  next
    case False
    then have "2 - i = Suc (2 - Suc i)" by simp
    then have e: "take (2 - i) (c # cs) = c # take (2 - Suc i) cs" by simp
    show ?thesis by (simp only: e check_fx_loop.simps Cons.IH)
  qed
qed

lemma process_line_lane_chars: "process_line fk t (lane_chars line) s = process_line fk t line s"
  using bt_loop_take [of fk t 0] fx_loop_take [of fk t 0]
  by (simp add: process_line_def bt_part_lane_chars fx_part_lane_chars)

lemma process_lines_lane_chars:
  "process_lines fk st ld i (map lane_chars ls) s = process_lines fk st ld i ls s"
  by (induction ls arbitrary: i s) (simp_all add: process_line_lane_chars)

lemma filter_bar_lane_chars:
  "filter (\<lambda>line. CHR ''|'' \<in> set line) (map lane_chars ls)
     = map lane_chars (filter (\<lambda>line. CHR ''|'' \<in> set line) ls)"
  by (induction ls) (simp_all add: bar_lane_chars)

lemma check_cross_lane_chars:
  "check_cross_measure_holds fk s (map lane_chars nmd) t = check_cross_measure_holds fk s nmd t"
  using check_bt_loop_take [of fk t 0] check_fx_loop_take [of fk t 0]
  by (simp add: check_cross_measure_holds_def filter_bar_lane_chars bt_part_lane_chars
        fx_part_lane_chars split: list.splits)

text \<open>
  C10.  Of a note-data line only the first four characters of the first segment
  and the first two of the second segment produce events or change the hold state:
  the measure processor, the Hold-Boundary Resolver included, returns the same
  result when every line is cut down to these characters, so all that follows the
  second separator is ignored, in both column modes.
\<close>

theorem only_lane_chars_matter:
  "process_measure_with_lookahead four_key (map lane_chars note_lines) t0 bpm beats s
       (map_option (map lane_chars) next_measure_data)
     = process_measure_with_lookahead four_key note_lines t0 bpm beats s next_measure_data"
  by (cases next_measure_data)
     (simp_all add: process_measure_with_lookahead_def process_lines_lane_chars
        check_cross_lane_chars Let_def)

section \<open>The end of the chart\<close>

text \<open>
  C3.  When the timeline is built, in either column mode, the hold-state table is
  empty: the measures leave a state \<open>st0\<close>, and every column of it with an open
  hold is closed by a hold event that ends at the final time \<open>int(current_time)\<close>,
  appended in column order; no open hold is dropped.
\<close>

theorem no_hold_left_open:
  assumes "timeline pf pn four_key custom_offset_ms lines start_idx meta = Inr st"
  shows "hold_state st = replicate (num_lanes four_key) None \<and>
         (\<exists>bpm st0. initial_bpm pf meta = Inr bpm \<and>
            measures pf pn four_key
              (initial_builder four_key bpm (start_time pf custom_offset_ms meta))
              (drop start_idx lines) = Inr st0 \<and>
            hit_objects st =
              hit_objects st0 @ open_holds four_key (hold_state st0) (py_int (current_time st0)))"
proof -
  from assms obtain bpm st0 where
    b: "initial_bpm pf meta = Inr bpm" and
    m: "measures pf pn four_key
          (initial_builder four_key bpm (start_time pf custom_offset_ms meta))
          (drop start_idx lines) = Inr st0" and
    st: "st = st0\<lparr>hold_state := replicate (length (hold_state st0)) None,
                  hit_objects := hit_objects st0 @
                    open_holds four_key (hold_state st0) (py_int (current_time st0))\<rparr>"
    by (auto simp: timeline_def close_remaining_holds_eq split: sum.splits if_splits)
  from length_measures [OF m] have "length (hold_state st0) = num_lanes four_key"
    by (simp add: initial_builder_def)
  with st b m show ?thesis by auto
qed

theorem no_hold_left_open_witness:
  "timeline dec_float dec_int False 0 [''2000|10''] 0 Map.empty =
     Inr \<lparr>current_bpm = 120, beats_per_measure = 4, current_time = 2000,
          timing_points = [\<lparr>tp_time = 0, tp_beat_length = 500, tp_meter = 4\<rparr>],
          hit_objects = [HoldNote 43 0 2000, HoldNote 128 0 2000],
          hold_state = [None, None, None, None, None, None]\<rparr> \<and>
   [None, None, None, None, None, None] = replicate (num_lanes False) (None :: int option) \<and>
   (\<exists>bpm st0. initial_bpm dec_float Map.empty = Inr bpm \<and>
      measures dec_float dec_int False
        (initial_builder False bpm (start_time dec_float 0 Map.empty)) (drop 0 [''2000|10''])
        = Inr st0 \<and>
      [HoldNote 43 0 2000, HoldNote 128 0 2000] =
        hit_objects st0 @ open_holds False (hold_state st0) (py_int (current_time st0)))"
proof -
  have h: "timeline dec_float dec_int False 0 [''2000|10''] 0 Map.empty =
     Inr \<lparr>current_bpm = 120, beats_per_measure = 4, current_time = 2000,
          timing_points = [\<lparr>tp_time = 0, tp_beat_length = 500, tp_meter = 4\<rparr>],
          hit_objects = [HoldNote 43 0 2000, HoldNote 128 0 2000],
          hold_state = [None, None, None, None, None, None]\<rparr>"
    by code_simp
  from no_hold_left_open [OF h] h show ?thesis by simp
qed

section \<open>Measures without note data\<close>

text \<open>
  C7, as the claim states it, fails when the measure changes the tempo: entered at
  tempo 120 with 4 beats (a measure of 2000 ms), the measure \<^verbatim>\<open>t=240\<close>, \<^verbatim>\<open>x\<close> advances
  the time by 1000 ms, the duration at the tempo the measure sets.
\<close>

theorem empty_measure_uses_changed_tempo:
  "measure_step dec_float dec_int False (initial_builder False 120 0) [''t=240'', ''x''] =
     Inr (\<lparr>current_bpm = 240, beats_per_measure = 4, current_time = 1000,
           timing_points = [\<lparr>tp_time = 0, tp_beat_length = 500, tp_meter = 4\<rparr>,
                            \<lparr>tp_time = 0, tp_beat_length = 250, tp_meter = 4\<rparr>],
           hit_objects = [], hold_state = [None, None, None, None, None, None]\<rparr>, []) \<and>
   current_time (initial_builder False 120 0) +
     60000 / current_bpm (initial_builder False 120 0) *
       of_int (beats_per_measure (initial_builder False 120 0)) = 2000"
  by code_simp

text \<open>
  C7, amended.  In a measure without note-data lines, the tempo-change and
  time-signature lines of the measure itself take effect first: \<open>tempo_after\<close> and
  \<open>beats_after\<close> are the values after these lines, and each tempo change adds its
  marker at the start time of the measure.  If the measure has a data line (a line
  that is neither blank nor a control line) the current time advances by
  \<open>60000 / tempo * beats\<close> with these values, not with the values at the entry of the
  measure; if it has none the current time stays.  The tempo lines are assumed not to
  set the tempo 0, which ends the conversion with an error.
\<close>

theorem empty_measure_advance:
  assumes "current_bpm st \<noteq> 0"
    and "0 \<notin> set (tempo_trace pf (current_bpm st) (measure_raw lines))"
    and "note_lines_of lines = []"
  shows "measure_step pf pn four_key st lines =
     (let bpm = tempo_after pf (current_bpm st) (measure_raw lines);
          beats = beats_after pn (beats_per_measure st) (measure_raw lines)
      in Inr (st\<lparr>current_bpm := bpm, beats_per_measure := beats,
                 timing_points := timing_points st @
                   map (marker_at (py_int (current_time st)))
                     (tempo_trace pf (current_bpm st) (measure_raw lines)),
                 current_time :=
                   (if data_lines lines = [] then current_time st
                    else current_time st + 60000 / bpm * of_int beats)\<rparr>,
              after_measure lines))"
  using assms(3) by (simp add: measure_step_eq [OF assms(1,2)] Let_def)

theorem empty_measure_advance_witness:
  "measure_step dec_float dec_int False
     \<lparr>current_bpm = 120, beats_per_measure = 4, current_time = 0,
      timing_points = [\<lparr>tp_time = 0, tp_beat_length = 500, tp_meter = 4\<rparr>],
      hit_objects = [], hold_state = [None, None, None, None, None, None]\<rparr>
     [''beat=3/4'', ''t=240'', ''x'', ''--'', ''y''] =
   Inr (\<lparr>current_bpm = 240, beats_per_measure = 3, current_time = 750,
          timing_points = [\<lparr>tp_time = 0, tp_beat_length = 500, tp_meter = 4\<rparr>,
                           \<lparr>tp_time = 0, tp_beat_length = 250, tp_meter = 4\<rparr>],
          hit_objects = [], hold_state = [None, None, None, None, None, None]\<rparr>, [''y''])"
proof -
  let ?st = "\<lparr>current_bpm = 120, beats_per_measure = 4, current_time = 0,
      timing_points = [\<lparr>tp_time = 0, tp_beat_length = 500, tp_meter = 4\<rparr>],
      hit_objects = [], hold_state = [None, None, None, None, None, None :: int option]\<rparr>"
  let ?L = "[''beat=3/4'', ''t=240'', ''x'', ''--'', ''y'']"
  have t: "tempo_trace dec_float 120 (measure_raw ?L) = [240]" by code_simp
  have a: "tempo_after dec_float 120 (measure_raw ?L) = 240" by code_simp
  have b: "beats_after dec_int 4 (measure_raw ?L) = 3" by code_simp
  have d: "data_lines ?L = [''x'']" by code_simp
  have n: "note_lines_of ?L = []" by code_simp
  have r: "after_measure ?L = [''y'']" by code_simp
  have p: "py_int 0 = 0" by (simp add: py_int_def)
  have h1: "current_bpm ?st \<noteq> 0" by simp
  have h2: "0 \<notin> set (tempo_trace dec_float (current_bpm ?st) (measure_raw ?L))"
    by (simp add: t)
  from empty_measure_advance [OF h1 h2 n, of dec_int False] show ?thesis
    by (simp add: t a b d r p marker_at_def)
qed

section \<open>The tempo markers of a conversion\<close>




section \<open>A tempo change inside a measure\<close>

text \<open>
  C2, as the claim states it, fails.  The second measure below starts at 2000 ms and
  changes the tempo from 120 to 240 after two of its four lines.  The marker of the
  change is stamped 2000, the start of the measure, not the time of the line; and all
  four lines are spaced by the new tempo (2000, 2250, 2500, 2750): the two lines
  before the change are not left on the old time base (2000, 2500).
\<close>

theorem tempo_change_rebases_whole_measure:
  "parse_chart_data dec_float dec_int False 0
     [''1000|00'', ''--'', ''1000|00'', ''1000|00'', ''t=240'', ''1000|00'', ''1000|00'']
     0 Map.empty =
   Inr ([\<lparr>tp_time = 0, tp_beat_length = 500, tp_meter = 4\<rparr>,
         \<lparr>tp_time = 2000, tp_beat_length = 250, tp_meter = 4\<rparr>],
        [HitCircle 128 0, HitCircle 128 2000, HitCircle 128 2250, HitCircle 128 2500,
         HitCircle 128 2750])"
  by code_simp

text \<open>
  C2, amended.  In a measure with note-data lines, every tempo-change line of the
  measure whose tempo differs from the tempo in effect by more than 0.001 (the
  tempos of \<open>tempo_trace\<close>) appends exactly one marker, stamped with the truncated
  current time at the start of the measure: the current time does not move while the
  lines of a measure are read.  The note-data lines are processed after all lines
  are read, so every note-data line of the measure, those before the change
  included, is timed with the tempo and the time signature in effect at the end of
  the measure.  The tempo lines are assumed not to set the tempo 0, which ends the
  conversion with an error.
\<close>

theorem tempo_change_in_measure:
  assumes "current_bpm st \<noteq> 0"
    and "0 \<notin> set (tempo_trace pf (current_bpm st) (measure_raw lines))"
    and "note_lines_of lines \<noteq> []"
  shows "measure_step pf pn four_key st lines =
     (let bpm = tempo_after pf (current_bpm st) (measure_raw lines);
          beats = beats_after pn (beats_per_measure st) (measure_raw lines);
          measure_duration = 60000 / bpm * of_int beats;
          nl = note_lines_of lines;
          s = process_lines four_key (current_time st)
                (measure_duration / real (length nl)) 0 nl (hold_state st, hit_objects st)
      in Inr (st\<lparr>current_bpm := bpm, beats_per_measure := beats,
                 timing_points := timing_points st @
                   map (marker_at (py_int (current_time st)))
                     (tempo_trace pf (current_bpm st) (measure_raw lines)),
                 current_time := current_time st + measure_duration,
                 hold_state := fst s, hit_objects := snd s\<rparr>,
              after_measure lines))"
proof -
  from assms(3) have "data_lines lines \<noteq> []" by (auto simp: note_lines_of_def)
  with assms(3) show ?thesis by (simp add: measure_step_eq [OF assms(1,2)] Let_def)
qed

theorem tempo_change_in_measure_witness:
  "measure_step dec_float dec_int False
     \<lparr>current_bpm = 120, beats_per_measure = 4, current_time = 2000,
      timing_points = [\<lparr>tp_time = 0, tp_beat_length = 500, tp_meter = 4\<rparr>],
      hit_objects = [], hold_state = [None, None, None, None, None, None]\<rparr>
     [''1000|00'', ''t=240'', ''1000|00''] =
   Inr (\<lparr>current_bpm = 240, beats_per_measure = 4, current_time = 3000,
          timing_points = [\<lparr>tp_time = 0, tp_beat_length = 500, tp_meter = 4\<rparr>,
                           \<lparr>tp_time = 2000, tp_beat_length = 250, tp_meter = 4\<rparr>],
          hit_objects = [HitCircle 128 2000, HitCircle 128 2500],
          hold_state = [None, None, None, None, None, None]\<rparr>, [])"
proof -
  let ?st = "\<lparr>current_bpm = 120, beats_per_measure = 4, current_time = 2000,
      timing_points = [\<lparr>tp_time = 0, tp_beat_length = 500, tp_meter = 4\<rparr>],
      hit_objects = [], hold_state = [None, None, None, None, None, None :: int option]\<rparr>"
  let ?L = "[''1000|00'', ''t=240'', ''1000|00'']"
  have t: "tempo_trace dec_float 120 (measure_raw ?L) = [240]" by code_simp
  have a: "tempo_after dec_float 120 (measure_raw ?L) = 240" by code_simp
  have b: "beats_after dec_int 4 (measure_raw ?L) = 4" by code_simp
  have n: "note_lines_of ?L = [''1000|00'', ''1000|00'']" by code_simp
  have r: "after_measure ?L = []" by code_simp
  have p: "py_int 2000 = 2000" by (simp add: py_int_def)
  have s: "process_lines False 2000 500 0 [''1000|00'', ''1000|00'']
             ([None, None, None, None, None, None], []) =
           ([None, None, None, None, None, None], [HitCircle 128 2000, HitCircle 128 2500])"
    by code_simp
  have h1: "current_bpm ?st \<noteq> 0" by simp
  have h2: "0 \<notin> set (tempo_trace dec_float (current_bpm ?st) (measure_raw ?L))"
    by (simp add: t)
  have h3: "note_lines_of ?L \<noteq> []" by (simp add: n)
  from tempo_change_in_measure [OF h1 h2 h3, of dec_int False] s show ?thesis
    by (simp add: t a b n r p marker_at_def)
qed

section \<open>A hold across a measure boundary\<close>




section \<open>The times of a hold\<close>




section \<open>The order of the emitted lists\<close>

lemma osu_lines_order:
  "\<exists>pre. \<forall>tls hls. osu_lines fk meta tls hls =
     pre @ [''[TimingPoints]''] @ tls @ ['''', ''[HitObjects]''] @ hls"
proof -
  have g: "X @ ['''', ''[TimingPoints]''] @ R = (X @ ['''']) @ [''[TimingPoints]''] @ R"
    for X R :: "string list"
    by simp
  show ?thesis
    unfolding osu_lines_def Let_def append_assoc by (rule exI, intro allI, rule g)
qed

text \<open>
  C6, as the claim states it, fails.  A hold is appended to the event list when it
  closes: in the first chart below a hit at 500 is emitted before the hold that
  started at 0 and closes at 1000, so the list is not ordered by start time.  And a
  negative tempo makes the time run backwards: in the second chart the markers are
  stamped 0, 2000, 0.
\<close>

theorem events_not_in_start_order:
  "parse_chart_data dec_float dec_int False 0
     [''2000|00'', ''2100|00'', ''0000|00'', ''0000|00''] 0 Map.empty =
   Inr ([\<lparr>tp_time = 0, tp_beat_length = 500, tp_meter = 4\<rparr>],
        [HitCircle 213 500, HoldNote 128 0 1000]) \<and>
   \<not> sorted (map start_of [HitCircle 213 500, HoldNote 128 0 1000]) \<and>
   parse_chart_data dec_float dec_int False 0
     [''1000|00'', ''--'', ''t=-120'', ''1000|00'', ''--'', ''t=120'', ''1000|00''] 0 Map.empty =
   Inr ([\<lparr>tp_time = 0, tp_beat_length = 500, tp_meter = 4\<rparr>,
         \<lparr>tp_time = 2000, tp_beat_length = - 500, tp_meter = 4\<rparr>,
         \<lparr>tp_time = 0, tp_beat_length = 500, tp_meter = 4\<rparr>],
        [HitCircle 128 0, HitCircle 128 2000, HitCircle 128 0]) \<and>
   \<not> sorted (map tp_time
         [\<lparr>tp_time = 0, tp_beat_length = 500, tp_meter = 4\<rparr>,
          \<lparr>tp_time = 2000, tp_beat_length = - 500, tp_meter = 4\<rparr>,
          \<lparr>tp_time = 0, tp_beat_length = 500, tp_meter = 4\<rparr>])"
  by code_simp

text \<open>
  C6, amended.  For every chart whose header tempo is positive, whose tempo changes
  are all positive and whose time signatures are all non-negative, the conversion
  completes, the tempo markers are ordered by nondecreasing time, and the note events
  are ordered by nondecreasing time of emission: the time of a hit, the end time (not
  the start time) of a hold.  The Beatmap Serializer joins, after lines that
  depend on the metadata only, the line \<^verbatim>\<open>[TimingPoints]\<close>, the lines of the first
  list it is given in their order, an empty line, the line \<^verbatim>\<open>[HitObjects]\<close> and the
  lines of the second list in their order: it sorts nothing.
\<close>

theorem lists_in_emission_order:
  assumes "initial_bpm pf meta = Inr bpm" and "0 < bpm"
    and "\<forall>b \<in> set (tempo_trace pf bpm (drop start_idx lines)). 0 < b"
    and "\<forall>n \<in> set (beats_trace pn (drop start_idx lines)). 0 \<le> n"
  shows "(\<exists>tps hos.
            parse_chart_data pf pn four_key custom_offset_ms lines start_idx meta = Inr (tps, hos) \<and>
            sorted (map tp_time tps) \<and> sorted (map emit_time hos)) \<and>
         (\<exists>pre. \<forall>tls hls. create_osu_content four_key meta tls hls =
            join [CHR 0x0A]
              (pre @ [''[TimingPoints]''] @ tls @ ['''', ''[HitObjects]''] @ hls))"
proof -
  from timeline_inv [OF assms, of four_key custom_offset_ms] obtain st where
    t: "timeline pf pn four_key custom_offset_ms lines start_idx meta = Inr st" and
    s: "sorted (map emit_time (hit_objects st))" "sorted (map tp_time (timing_points st))"
    by blast
  from t have "parse_chart_data pf pn four_key custom_offset_ms lines start_idx meta =
      Inr (timing_points st, hit_objects st)"
    by (simp add: parse_chart_data_def)
  with s have "\<exists>tps hos.
            parse_chart_data pf pn four_key custom_offset_ms lines start_idx meta = Inr (tps, hos) \<and>
            sorted (map tp_time tps) \<and> sorted (map emit_time hos)"
    by blast
  moreover from osu_lines_order [of four_key meta] obtain pre where
    "\<forall>tls hls. osu_lines four_key meta tls hls =
       pre @ [''[TimingPoints]''] @ tls @ ['''', ''[HitObjects]''] @ hls"
    by blast
  then have "\<exists>pre. \<forall>tls hls. create_osu_content four_key meta tls hls =
            join [CHR 0x0A]
              (pre @ [''[TimingPoints]''] @ tls @ ['''', ''[HitObjects]''] @ hls)"
    unfolding create_osu_content_def by (intro exI [of _ pre]) simp
  ultimately show ?thesis by blast
qed

theorem lists_in_emission_order_witness:
  "parse_chart_data dec_float dec_int False 0
     [''2000|00'', ''2100|00'', ''t=150'', ''0000|00'', ''0000|00''] 0 Map.empty =
   Inr ([\<lparr>tp_time = 0, tp_beat_length = 500, tp_meter = 4\<rparr>,
         \<lparr>tp_time = 0, tp_beat_length = 400, tp_meter = 4\<rparr>],
        [HitCircle 213 400, HoldNote 128 0 800]) \<and>
   sorted (map tp_time
     [\<lparr>tp_time = 0, tp_beat_length = 500, tp_meter = 4\<rparr>,
      \<lparr>tp_time = 0, tp_beat_length = 400, tp_meter = 4\<rparr>]) \<and>
   sorted (map emit_time [HitCircle 213 400, HoldNote 128 0 800])"
proof -
  let ?chart = "[''2000|00'', ''2100|00'', ''t=150'', ''0000|00'', ''0000|00'']"
  have b: "initial_bpm dec_float Map.empty = Inr 120" by (simp add: initial_bpm_def)
  have p: "(0::real) < 120" by simp
  have t: "tempo_trace dec_float 120 (drop 0 ?chart) = [150]" by code_simp
  have n: "beats_trace dec_int (drop 0 ?chart) = []" by code_simp
  have ht: "\<forall>b \<in> set (tempo_trace dec_float 120 (drop 0 ?chart)). 0 < b"
    unfolding t by simp
  have hn: "\<forall>n \<in> set (beats_trace dec_int (drop 0 ?chart)). 0 \<le> n"
    unfolding n by simp
  have c: "parse_chart_data dec_float dec_int False 0 ?chart 0 Map.empty =
     Inr ([\<lparr>tp_time = 0, tp_beat_length = 500, tp_meter = 4\<rparr>,
           \<lparr>tp_time = 0, tp_beat_length = 400, tp_meter = 4\<rparr>],
          [HitCircle 213 400, HoldNote 128 0 800])"
    by code_simp
  from lists_in_emission_order [OF b p ht hn, of False 0] c show ?thesis by auto
qed

end
